theory Spec2Isabelle
  imports Main "HOL-Library.Word"
begin

section \<open>Server bootstrap and transport establishment (app/src/server.c)\<close>

text \<open>
  The C file talks to the outside world through the adb bridge, the socket
  layer, a small HTTP GET and SDL.  Each such call is an \<^emph>\<open>event\<close>: the call
  with its arguments and the value it returned.  The functions of server.c
  are embedded as functions that take the events so far and return their
  result with the extended event list.  What a call returns is chosen by
  the environment, a record of functions from the events so far (and the
  arguments of the call) to the returned value, so that one call may fail
  and the same call succeed later.  The version string of config.h is
  a field of the environment too.  Log output (LOGD, LOGW, LOGE) is not
  modelled.
\<close>

subsection \<open>Data\<close>

type_synonym u16 = "16 word"
type_synonym u32 = "32 word"

text \<open>
  Modelled from the spec: the headers util/net.h and command.h are not part
  of the sources.  A socket is "either a valid socket or Invalid", an agent
  process is a "handle or None".
\<close>

datatype socket_t = INVALID_SOCKET | Socket nat

datatype process_t = PROCESS_NONE | Process nat

text \<open>
  struct sc_port_range \<open>{first, last}\<close>; the fields carry a suffix since
  \<open>last\<close> is a list function of HOL.
\<close>

record sc_port_range =
  first_port :: u16
  last_port :: u16

text \<open>
  struct server, with the fields that server_init initialises.  A string
  pointer is an option (NULL is None); the thread handle, the mutex and the
  condition variable are present or not; the atomic flag is a bool.
\<close>

record server =
  serial :: "string option"
  url :: "string option"
  addr :: u32
  process :: process_t
  wait_server_thread :: bool
  server_socket_closed :: bool
  mutex :: bool
  process_terminated_cond :: bool
  process_terminated :: bool
  server_socket :: socket_t
  video_socket :: socket_t
  control_socket :: socket_t
  port_range :: sc_port_range
  local_port :: u16
  tunnel_enabled :: bool
  tunnel_forward :: bool
  direct :: bool

text \<open>
  Modelled from the spec: struct server_params and enum sc_log_level are
  declared in server.h and util/log.h, which are not part of the sources.
  The field \<open>port_range\<close> carries a prefix since struct server has a field of the
  same name.
\<close>

datatype sc_log_level =
  SC_LOG_LEVEL_DEBUG | SC_LOG_LEVEL_INFO | SC_LOG_LEVEL_WARN | SC_LOG_LEVEL_ERROR

record server_params =
  log_level :: sc_log_level
  crop :: "string option"
  codec_options :: "string option"
  encoder_name :: "string option"
  params_port_range :: sc_port_range
  max_size :: u16
  bit_rate :: u32
  max_fps :: u16
  lock_video_orientation :: "8 word"
  control :: bool
  display_id :: u16
  show_touches :: bool
  stay_awake :: bool
  force_adb_forward :: bool

subsection \<open>Events and the environment\<close>

text \<open>The bridge commands whose exit status process_check_success reads.\<close>

datatype adb_cmd =
    Adb_push "string option" string string
  | Adb_reverse "string option" string u16
  | Adb_reverse_remove "string option" string
  | Adb_forward "string option" u16 string
  | Adb_forward_remove "string option" u16

datatype event =
    Adb adb_cmd bool
  | Adb_execute "string option" "string list" process_t
  | Net_listen u32 u16 nat socket_t
  | Net_connect u32 u16 socket_t
  | Net_accept socket_t socket_t
  | Net_recv socket_t nat int
  | Net_shutdown socket_t
  | Net_close socket_t bool
  | Curl_get string int string
  | Get_server_path "string option"
  | Is_regular_file string bool
  | SDL_Delay u32
  | SDL_strdup bool
  | SDL_free_serial
  | SDL_free_url
  | SDL_CreateMutex bool
  | SDL_CreateCond bool
  | SDL_DestroyMutex
  | SDL_DestroyCond
  | SDL_CreateThread bool
  | SDL_WaitThread
  | Cond_wait_timeout int
  | Cmd_terminate process_t
  | Cmd_simple_wait process_t

type_synonym trace = "event list"

record env =
  adb_success :: "trace \<Rightarrow> adb_cmd \<Rightarrow> bool"
  adb_executed :: "trace \<Rightarrow> string option \<Rightarrow> string list \<Rightarrow> process_t"
  listened :: "trace \<Rightarrow> u32 \<Rightarrow> u16 \<Rightarrow> socket_t"
  connected :: "trace \<Rightarrow> u32 \<Rightarrow> u16 \<Rightarrow> socket_t"
  accepted :: "trace \<Rightarrow> socket_t \<Rightarrow> socket_t"
  received :: "trace \<Rightarrow> socket_t \<Rightarrow> nat \<Rightarrow> int"
  closed_ok :: "trace \<Rightarrow> socket_t \<Rightarrow> bool"
  curl_response :: "trace \<Rightarrow> string \<Rightarrow> int \<times> string"
  server_path :: "trace \<Rightarrow> string option"
  regular_file :: "trace \<Rightarrow> string \<Rightarrow> bool"
  strdup_ok :: "trace \<Rightarrow> bool"
  mutex_created :: "trace \<Rightarrow> bool"
  cond_created :: "trace \<Rightarrow> bool"
  thread_created :: "trace \<Rightarrow> bool"
  wait_timeout :: "trace \<Rightarrow> int"
  SCRCPY_VERSION :: string

subsection \<open>The bridge: one tunnel on one port\<close>

definition SOCKET_NAME :: string where
  "SOCKET_NAME = ''scrcpy''"

definition DEVICE_SERVER_PATH :: string where
  "DEVICE_SERVER_PATH = ''/data/local/tmp/scrcpy-server.jar''"

definition IPV4_LOCALHOST :: u32 where
  "IPV4_LOCALHOST = 0x7F000001"

text \<open>An adb command followed by process_check_success.\<close>

definition adb_check :: "env \<Rightarrow> adb_cmd \<Rightarrow> trace \<Rightarrow> bool \<times> trace" where
  "adb_check E c t = (let ok = adb_success E t c in (ok, t @ [Adb c ok]))"

definition enable_tunnel_reverse :: "env \<Rightarrow> string option \<Rightarrow> u16 \<Rightarrow> trace \<Rightarrow> bool \<times> trace" where
  "enable_tunnel_reverse E ser port t = adb_check E (Adb_reverse ser SOCKET_NAME port) t"

definition disable_tunnel_reverse :: "env \<Rightarrow> string option \<Rightarrow> trace \<Rightarrow> bool \<times> trace" where
  "disable_tunnel_reverse E ser t = adb_check E (Adb_reverse_remove ser SOCKET_NAME) t"

definition enable_tunnel_forward :: "env \<Rightarrow> string option \<Rightarrow> u16 \<Rightarrow> trace \<Rightarrow> bool \<times> trace" where
  "enable_tunnel_forward E ser port t = adb_check E (Adb_forward ser port SOCKET_NAME) t"

definition disable_tunnel_forward :: "env \<Rightarrow> string option \<Rightarrow> u16 \<Rightarrow> trace \<Rightarrow> bool \<times> trace" where
  "disable_tunnel_forward E ser port t = adb_check E (Adb_forward_remove ser port) t"

definition disable_tunnel :: "env \<Rightarrow> server \<Rightarrow> trace \<Rightarrow> bool \<times> trace" where
  "disable_tunnel E s t =
     (if tunnel_forward s then disable_tunnel_forward E (serial s) (local_port s) t
      else disable_tunnel_reverse E (serial s) t)"

definition listen_on_port :: "env \<Rightarrow> u16 \<Rightarrow> trace \<Rightarrow> socket_t \<times> trace" where
  "listen_on_port E port t =
     (let sock = listened E t IPV4_LOCALHOST port
      in (sock, t @ [Net_listen IPV4_LOCALHOST port 1 sock]))"

subsection \<open>The port sweeps\<close>

text \<open>
  The body of the \<open>for (;;)\<close> loop of enable_tunnel_reverse_any_port, with
  the loop variable \<open>port\<close> as an argument.  The comparison
  \<open>port < port_range.last\<close> guards the increment.
\<close>

function enable_tunnel_reverse_loop ::
  "env \<Rightarrow> server \<Rightarrow> sc_port_range \<Rightarrow> u16 \<Rightarrow> trace \<Rightarrow> bool \<times> server \<times> trace" where
  "enable_tunnel_reverse_loop E s r port t =
     (case enable_tunnel_reverse E (serial s) port t of (ok, t1) \<Rightarrow>
        if \<not> ok then (False, s, t1)
        else (case listen_on_port E port t1 of (sock, t2) \<Rightarrow>
          if sock \<noteq> INVALID_SOCKET
          then (True, s\<lparr>server_socket := sock, local_port := port\<rparr>, t2)
          else (case disable_tunnel_reverse E (serial s) t2 of (removed, t3) \<Rightarrow>
            if port < last_port r
            then enable_tunnel_reverse_loop E (s\<lparr>server_socket := sock\<rparr>) r (port + 1) t3
            else (False, s\<lparr>server_socket := sock\<rparr>, t3))))"
  by pat_completeness auto
termination
proof (relation "measure (\<lambda>(E, s, r, port, t). unat (last_port r) - unat port)")
  show "wf (measure (\<lambda>(E, s, r, port, t). unat (last_port r) - unat port))"
    by simp
next
  fix E :: env and s :: server and r :: sc_port_range and port :: u16 and t :: trace
    and x :: "bool \<times> trace" and ok :: bool and t1 :: trace
    and y :: "socket_t \<times> trace" and sock :: socket_t and t2 :: trace
    and z :: "bool \<times> trace" and removed :: bool and t3 :: trace
  assume lt: "port < last_port r"
  from lt have "unat port < unat (last_port r)"
    by (simp add: word_less_nat_alt)
  moreover have "unat (last_port r) < 2 ^ 16"
    using unsigned_less [of "last_port r"] by simp
  ultimately have "unat port + 1 < 2 ^ 16"
    by simp
  then have "unat (port + 1) = unat port + 1"
    by (simp add: unat_word_ariths)
  moreover note \<open>unat port < unat (last_port r)\<close>
  ultimately show "((E, s\<lparr>server_socket := sock\<rparr>, r, port + 1, t3), (E, s, r, port, t))
      \<in> measure (\<lambda>(E, s, r, port, t). unat (last_port r) - unat port)"
    by simp
qed

declare enable_tunnel_reverse_loop.simps [simp del]

definition enable_tunnel_reverse_any_port ::
  "env \<Rightarrow> server \<Rightarrow> sc_port_range \<Rightarrow> trace \<Rightarrow> bool \<times> server \<times> trace" where
  "enable_tunnel_reverse_any_port E s r t = enable_tunnel_reverse_loop E s r (first_port r) t"

text \<open>The loop of enable_tunnel_forward_any_port.\<close>

function enable_tunnel_forward_loop ::
  "env \<Rightarrow> server \<Rightarrow> sc_port_range \<Rightarrow> u16 \<Rightarrow> trace \<Rightarrow> bool \<times> server \<times> trace" where
  "enable_tunnel_forward_loop E s r port t =
     (case enable_tunnel_forward E (serial s) port t of (ok, t1) \<Rightarrow>
        if ok then (True, s\<lparr>local_port := port\<rparr>, t1)
        else if port < last_port r
          then enable_tunnel_forward_loop E s r (port + 1) t1
          else (False, s, t1))"
  by pat_completeness auto
termination
proof (relation "measure (\<lambda>(E, s, r, port, t). unat (last_port r) - unat port)")
  show "wf (measure (\<lambda>(E, s, r, port, t). unat (last_port r) - unat port))"
    by simp
next
  fix E :: env and s :: server and r :: sc_port_range and port :: u16 and t :: trace
    and x :: "bool \<times> trace" and ok :: bool and t1 :: trace
  assume lt: "port < last_port r"
  from lt have "unat port < unat (last_port r)"
    by (simp add: word_less_nat_alt)
  moreover have "unat (last_port r) < 2 ^ 16"
    using unsigned_less [of "last_port r"] by simp
  ultimately have "unat port + 1 < 2 ^ 16"
    by simp
  then have "unat (port + 1) = unat port + 1"
    by (simp add: unat_word_ariths)
  moreover note \<open>unat port < unat (last_port r)\<close>
  ultimately show "((E, s, r, port + 1, t1), (E, s, r, port, t))
      \<in> measure (\<lambda>(E, s, r, port, t). unat (last_port r) - unat port)"
    by simp
qed

declare enable_tunnel_forward_loop.simps [simp del]

text \<open>
  enable_tunnel_forward_any_port sets \<open>tunnel_forward\<close> before the first
  port is tried.
\<close>

definition enable_tunnel_forward_any_port ::
  "env \<Rightarrow> server \<Rightarrow> sc_port_range \<Rightarrow> trace \<Rightarrow> bool \<times> server \<times> trace" where
  "enable_tunnel_forward_any_port E s r t =
     enable_tunnel_forward_loop E (s\<lparr>tunnel_forward := True\<rparr>) r (first_port r) t"

definition enable_tunnel_any_port ::
  "env \<Rightarrow> server \<Rightarrow> sc_port_range \<Rightarrow> bool \<Rightarrow> trace \<Rightarrow> bool \<times> server \<times> trace" where
  "enable_tunnel_any_port E s r force t =
     (if \<not> force
      then (case enable_tunnel_reverse_any_port E s r t of (ok, s1, t1) \<Rightarrow>
        if ok then (True, s1, t1)
        else enable_tunnel_forward_any_port E s1 r t1)
      else enable_tunnel_forward_any_port E s r t)"

subsection \<open>Assertions\<close>

text \<open>
  A failed \<open>assert\<close> aborts the program.  A function that can reach one returns
  either the assertion that failed, with the events up to it, or its result
  with the events.
\<close>

datatype assertion =
    Assert_socket_not_invalid
  | Assert_not_was_closed
  | Assert_process_not_none

type_synonym 'a result = "(assertion \<times> trace) + ('a \<times> trace)"

definition bind_result :: "'a result \<Rightarrow> ('a \<Rightarrow> trace \<Rightarrow> 'b result) \<Rightarrow> 'b result" where
  "bind_result m f = (case m of Inl a \<Rightarrow> Inl a | Inr (x, t) \<Rightarrow> f x t)"

subsection \<open>Pushing and launching the agent\<close>

text \<open>
  get_server_path reads the process environment and the file system; its
  result (NULL or a path) is an answer of the environment here.
\<close>

definition push_server :: "env \<Rightarrow> string option \<Rightarrow> trace \<Rightarrow> bool \<times> trace" where
  "push_server E ser t =
     (let path = server_path E t; t1 = t @ [Get_server_path path]
      in case path of
           None \<Rightarrow> (False, t1)
         | Some p \<Rightarrow>
             let reg = regular_file E t1 p; t2 = t1 @ [Is_regular_file p reg]
             in if \<not> reg then (False, t2)
                else adb_check E (Adb_push ser p DEVICE_SERVER_PATH) t2)"

definition log_level_to_server_string :: "sc_log_level \<Rightarrow> string" where
  "log_level_to_server_string level =
     (case level of
        SC_LOG_LEVEL_DEBUG \<Rightarrow> ''debug''
      | SC_LOG_LEVEL_INFO \<Rightarrow> ''info''
      | SC_LOG_LEVEL_WARN \<Rightarrow> ''warn''
      | SC_LOG_LEVEL_ERROR \<Rightarrow> ''error'')"

text \<open>\<open>sprintf\<close> with \<open>%u\<close> and \<open>%i\<close>.\<close>

fun decimal :: "nat \<Rightarrow> string" where
  "decimal n =
     (if n < 10 then [''0123456789'' ! n]
      else decimal (n div 10) @ [''0123456789'' ! (n mod 10)])"

definition signed_decimal :: "int \<Rightarrow> string" where
  "signed_decimal i = (if i < 0 then ''-'' @ decimal (nat (- i)) else decimal (nat i))"

definition bool_string :: "bool \<Rightarrow> string" where
  "bool_string b = (if b then ''true'' else ''false'')"

definition string_or_dash :: "string option \<Rightarrow> string" where
  "string_or_dash x = (case x of None \<Rightarrow> ''-'' | Some v \<Rightarrow> v)"

text \<open>
  The arguments of the agent, shared by execute_server_adb and
  execute_server_curl; the tunnel flag is the seventh.
\<close>

definition server_arguments :: "env \<Rightarrow> server_params \<Rightarrow> string \<Rightarrow> string list" where
  "server_arguments E params tunnel =
     [SCRCPY_VERSION E,
      log_level_to_server_string (log_level params),
      decimal (unat (max_size params)),
      decimal (unat (bit_rate params)),
      decimal (unat (max_fps params)),
      signed_decimal (sint (lock_video_orientation params)),
      tunnel,
      string_or_dash (crop params),
      ''true'',
      bool_string (control params),
      decimal (unat (display_id params)),
      bool_string (show_touches params),
      bool_string (stay_awake params),
      string_or_dash (codec_options params),
      string_or_dash (encoder_name params)]"

definition execute_server_adb :: "env \<Rightarrow> server \<Rightarrow> server_params \<Rightarrow> trace \<Rightarrow> process_t \<times> trace" where
  "execute_server_adb E s params t =
     (let cmd = [''shell'', ''CLASSPATH='' @ DEVICE_SERVER_PATH, ''app_process'', ''/'',
                 ''com.genymobile.scrcpy.Server'']
               @ server_arguments E params (bool_string (tunnel_forward s));
          p = adb_executed E t (serial s) cmd
      in (p, t @ [Adb_execute (serial s) cmd p]))"

subsection \<open>The HTTP control of direct mode\<close>

text \<open>\<open>strstr haystack needle\<close>: the needle occurs in the haystack.\<close>

primrec strstr :: "string \<Rightarrow> string \<Rightarrow> bool" where
  "strstr [] needle = (needle = [])"
| "strstr (c # cs) needle = (take (length needle) (c # cs) = needle \<or> strstr cs needle)"

text \<open>
  curl_get returns a count and fills a buffer of 1024 bytes.  The test on the
  buffer is made twice, the second time after the buffer was terminated at
  the count (at 1023 when the count is too large).
\<close>

definition curl_success :: "int \<Rightarrow> string \<Rightarrow> bool" where
  "curl_success ret buffer =
     (if ret > 0 \<and> strstr buffer ''success''
      then (let buffer' = (if nat ret \<ge> 1024 then take 1023 buffer else take (nat ret) buffer)
            in ret > 0 \<and> strstr buffer' ''success'')
      else False)"

definition url_string :: "server \<Rightarrow> string" where
  "url_string s = (case url s of None \<Rightarrow> ''(null)'' | Some u \<Rightarrow> u)"

definition curl_get :: "env \<Rightarrow> string \<Rightarrow> trace \<Rightarrow> bool \<times> trace" where
  "curl_get E u t =
     (case curl_response E t u of (ret, buffer) \<Rightarrow>
        (curl_success ret buffer, t @ [Curl_get u ret buffer]))"

fun join_slash :: "string list \<Rightarrow> string" where
  "join_slash [] = []"
| "join_slash [x] = x"
| "join_slash (x # y # ys) = x @ ''/'' @ join_slash (y # ys)"

text \<open>True stands for PROCESS_SUCCESS, False for PROCESS_ERROR_GENERIC.\<close>

definition execute_server_curl :: "env \<Rightarrow> server \<Rightarrow> server_params \<Rightarrow> trace \<Rightarrow> bool \<times> trace" where
  "execute_server_curl E s params t =
     curl_get E (take 1023 (url_string s @ ''/startScrcpy/''
                   @ join_slash (server_arguments E params ''true''))) t"

definition stop_server_curl :: "env \<Rightarrow> server \<Rightarrow> trace \<Rightarrow> bool \<times> trace" where
  "stop_server_curl E s t = curl_get E (take 1023 (url_string s @ ''/stopScrcpy/'')) t"

subsection \<open>Connecting to the agent\<close>

definition connect_and_read_byte :: "env \<Rightarrow> u32 \<Rightarrow> u16 \<Rightarrow> trace \<Rightarrow> socket_t \<times> trace" where
  "connect_and_read_byte E a port t =
     (let socket = connected E t a port; t1 = t @ [Net_connect a port socket]
      in if socket = INVALID_SOCKET then (INVALID_SOCKET, t1)
         else let n = received E t1 socket 1; t2 = t1 @ [Net_recv socket 1 n]
              in if n \<noteq> 1
                 then (INVALID_SOCKET, t2 @ [Net_close socket (closed_ok E t2 socket)])
                 else (socket, t2))"

text \<open>
  The \<open>do ... while (--attempts > 0)\<close> loop: the body runs before the test,
  the counter is an unsigned 32-bit value and \<open>attempts - 1\<close> wraps at 0.
\<close>

function connect_to_server :: "env \<Rightarrow> u32 \<Rightarrow> u16 \<Rightarrow> u32 \<Rightarrow> u32 \<Rightarrow> trace \<Rightarrow> socket_t \<times> trace" where
  "connect_to_server E a port attempts delay t =
     (case connect_and_read_byte E a port t of (socket, t1) \<Rightarrow>
        if socket \<noteq> INVALID_SOCKET then (socket, t1)
        else (let t2 = (if attempts \<noteq> 0 then t1 @ [SDL_Delay delay] else t1)
              in if attempts - 1 > 0
                 then connect_to_server E a port (attempts - 1) delay t2
                 else (INVALID_SOCKET, t2)))"
  by pat_completeness auto
termination
proof (relation "measure (\<lambda>(E, a, port, attempts, delay, t). unat (attempts - 1))")
  show "wf (measure (\<lambda>(E, a, port, attempts, delay, t). unat (attempts - 1)))"
    by simp
next
  fix E :: env and a :: u32 and port :: u16 and attempts delay :: u32 and t t1 t2 :: trace
    and x :: "socket_t \<times> trace" and socket :: socket_t
  define b where "b = attempts - 1"
  assume "0 < attempts - 1"
  then have nz: "b \<noteq> 0"
    by (auto simp add: b_def)
  then have "unat b \<noteq> 0"
    by (simp add: unat_eq_zero)
  moreover from nz have "unat (b - 1) = unat b - 1"
    by (rule unat_minus_one)
  ultimately have "unat (attempts - 1 - 1) < unat (attempts - 1)"
    by (simp add: b_def)
  then show "((E, a, port, attempts - 1, delay, t2), (E, a, port, attempts, delay, t))
      \<in> measure (\<lambda>(E, a, port, attempts, delay, t). unat (attempts - 1))"
    by simp
qed

declare connect_to_server.simps [simp del]

subsection \<open>The lifecycle\<close>

definition close_socket :: "env \<Rightarrow> socket_t \<Rightarrow> trace \<Rightarrow> unit result" where
  "close_socket E socket t =
     (if socket = INVALID_SOCKET then Inl (Assert_socket_not_invalid, t)
      else let t1 = t @ [Net_shutdown socket]
           in Inr ((), t1 @ [Net_close socket (closed_ok E t1 socket)]))"

definition server_init :: "env \<Rightarrow> server \<Rightarrow> trace \<Rightarrow> bool \<times> server \<times> trace" where
  "server_init E s t =
     (let s1 = s\<lparr>serial := None, url := None, addr := 0, process := PROCESS_NONE,
                 wait_server_thread := False, server_socket_closed := False\<rparr>;
          m = mutex_created E t; t1 = t @ [SDL_CreateMutex m]
      in if \<not> m then (False, s1\<lparr>mutex := False\<rparr>, t1)
         else let c = cond_created E t1; t2 = t1 @ [SDL_CreateCond c]
              in if \<not> c
                 then (False, s1\<lparr>mutex := True, process_terminated_cond := False\<rparr>,
                       t2 @ [SDL_DestroyMutex])
                 else (True,
                       s1\<lparr>mutex := True, process_terminated_cond := True,
                          process_terminated := False,
                          server_socket := INVALID_SOCKET,
                          video_socket := INVALID_SOCKET,
                          control_socket := INVALID_SOCKET,
                          port_range := \<lparr>first_port = 0, last_port = 0\<rparr>,
                          local_port := 0,
                          tunnel_enabled := False, tunnel_forward := False,
                          direct := False\<rparr>,
                       t2))"

text \<open>The labels \<open>error1\<close> and \<open>error2\<close> of server_start.\<close>

definition server_start_error1 :: "server \<Rightarrow> trace \<Rightarrow> (bool \<times> server) result" where
  "server_start_error1 s t = Inr ((False, s), t @ [SDL_free_serial])"

definition server_start_error2 :: "env \<Rightarrow> server \<Rightarrow> trace \<Rightarrow> (bool \<times> server) result" where
  "server_start_error2 E s t =
     bind_result
       (if \<not> tunnel_forward s
        then (let was_closed = server_socket_closed s;
                  s1 = s\<lparr>server_socket_closed := True\<rparr>
              in if was_closed then Inl (Assert_not_was_closed, t)
                 else bind_result (close_socket E (server_socket s1) t) (\<lambda>u t1. Inr (s1, t1)))
        else Inr (s, t))
       (\<lambda>s1 t1.
          let t2 = (if direct s1 then snd (stop_server_curl E s1 t1)
                    else snd (disable_tunnel E s1 t1))
          in server_start_error1 s1 t2)"

text \<open>The end of server_start, from the creation of the thread on.\<close>

definition server_start_thread :: "env \<Rightarrow> server \<Rightarrow> trace \<Rightarrow> (bool \<times> server) result" where
  "server_start_thread E s t =
     (let created = thread_created E t;
          s1 = s\<lparr>wait_server_thread := created\<rparr>;
          t1 = t @ [SDL_CreateThread created]
      in if \<not> created
         then server_start_error2 E s1
                (t1 @ [Cmd_terminate (process s1), Cmd_simple_wait (process s1)])
         else Inr ((True, s1\<lparr>tunnel_enabled := True\<rparr>), t1))"

definition server_start ::
  "env \<Rightarrow> server \<Rightarrow> string option \<Rightarrow> server_params \<Rightarrow> trace \<Rightarrow> (bool \<times> server) result" where
  "server_start E s ser params t =
     (let s0 = s\<lparr>port_range := params_port_range params\<rparr>;
          dup = (case ser of None \<Rightarrow> True | Some v \<Rightarrow> strdup_ok E t);
          t0 = (case ser of None \<Rightarrow> t | Some v \<Rightarrow> t @ [SDL_strdup dup]);
          s1 = (case ser of None \<Rightarrow> s0
                | Some v \<Rightarrow> s0\<lparr>serial := (if dup then Some v else None)\<rparr>)
      in if \<not> dup then Inr ((False, s1), t0)
         else if direct s1
         then (case execute_server_curl E s1 params t0 of (ok, t1) \<Rightarrow>
                 if \<not> ok then server_start_error2 E s1 t1
                 else server_start_thread E s1 t1)
         else (case push_server E ser t0 of (pushed, t1) \<Rightarrow>
                 if \<not> pushed then server_start_error1 s1 t1
                 else (case enable_tunnel_any_port E s1 (params_port_range params)
                              (force_adb_forward params) t1 of (ok, s2, t2) \<Rightarrow>
                   if \<not> ok then server_start_error1 s2 t2
                   else (case execute_server_adb E s2 params t2 of (p, t3) \<Rightarrow>
                     if p = PROCESS_NONE then server_start_error2 E (s2\<lparr>process := p\<rparr>) t3
                     else server_start_thread E (s2\<lparr>process := p\<rparr>) t3))))"

definition net_connect :: "env \<Rightarrow> u32 \<Rightarrow> u16 \<Rightarrow> trace \<Rightarrow> socket_t \<times> trace" where
  "net_connect E a port t =
     (let socket = connected E t a port in (socket, t @ [Net_connect a port socket]))"

definition net_accept :: "env \<Rightarrow> socket_t \<Rightarrow> trace \<Rightarrow> socket_t \<times> trace" where
  "net_accept E l t = (let socket = accepted E t l in (socket, t @ [Net_accept l socket]))"

text \<open>
  The two branches of server_connect_to that connect (direct and forward) differ in the
  address, the port, the attempts and in what follows the second socket.
\<close>

definition server_connect_to :: "env \<Rightarrow> server \<Rightarrow> trace \<Rightarrow> (bool \<times> server) result" where
  "server_connect_to E s t =
     (if direct s
      then (case connect_to_server E (addr s) (first_port (port_range s)) 12 1000 t of
              (video, t1) \<Rightarrow>
                let s1 = s\<lparr>video_socket := video\<rparr>
                in if video = INVALID_SOCKET then Inr ((False, s1), t1)
                   else (case net_connect E (addr s1) (first_port (port_range s1)) t1 of
                     (ctl, t2) \<Rightarrow>
                       let s2 = s1\<lparr>control_socket := ctl\<rparr>
                       in if ctl = INVALID_SOCKET then Inr ((False, s2), t2)
                          else Inr ((True, s2), t2)))
      else if tunnel_forward s
      then (case connect_to_server E IPV4_LOCALHOST (local_port s) 100 100 t of
              (video, t1) \<Rightarrow>
                let s1 = s\<lparr>video_socket := video\<rparr>
                in if video = INVALID_SOCKET then Inr ((False, s1), t1)
                   else (case net_connect E IPV4_LOCALHOST (local_port s1) t1 of
                     (ctl, t2) \<Rightarrow>
                       let s2 = s1\<lparr>control_socket := ctl\<rparr>
                       in if ctl = INVALID_SOCKET then Inr ((False, s2), t2)
                          else Inr ((True, s2\<lparr>tunnel_enabled := False\<rparr>),
                                    snd (disable_tunnel E s2 t2))))
      else (case net_accept E (server_socket s) t of
              (video, t1) \<Rightarrow>
                let s1 = s\<lparr>video_socket := video\<rparr>
                in if video = INVALID_SOCKET then Inr ((False, s1), t1)
                   else (case net_accept E (server_socket s1) t1 of
                     (ctl, t2) \<Rightarrow>
                       let s2 = s1\<lparr>control_socket := ctl\<rparr>
                       in if ctl = INVALID_SOCKET then Inr ((False, s2), t2)
                          else (let was_closed = server_socket_closed s2;
                                    s3 = s2\<lparr>server_socket_closed := True\<rparr>
                                in if \<not> was_closed
                                   then bind_result (close_socket E (server_socket s3) t2)
                                          (\<lambda>u t3. Inr ((True, s3), t3))
                                   else Inr ((True, s3), t2)))))"

definition SDL_MUTEX_TIMEDOUT :: int where
  "SDL_MUTEX_TIMEDOUT = 1"

text \<open>
  server_stop in four parts: the sockets, the assertion on the process, the
  tunnel and the HTTP stop, the wait for the agent.  \<open>process_terminated\<close> is
  written by the waiting thread; server_stop reads it once.
\<close>

definition server_stop_sockets :: "env \<Rightarrow> server \<Rightarrow> trace \<Rightarrow> server result" where
  "server_stop_sockets E s t =
     bind_result
       (if server_socket s \<noteq> INVALID_SOCKET
        then (let was_closed = server_socket_closed s;
                  s1 = s\<lparr>server_socket_closed := True\<rparr>
              in if \<not> was_closed
                 then bind_result (close_socket E (server_socket s1) t) (\<lambda>u t1. Inr (s1, t1))
                 else Inr (s1, t))
        else Inr (s, t))
       (\<lambda>s1 t1.
          bind_result
            (if video_socket s1 \<noteq> INVALID_SOCKET then close_socket E (video_socket s1) t1
             else Inr ((), t1))
            (\<lambda>u t2.
               bind_result
                 (if control_socket s1 \<noteq> INVALID_SOCKET
                  then close_socket E (control_socket s1) t2
                  else Inr ((), t2))
                 (\<lambda>u t3. Inr (s1, t3))))"

definition server_stop_wait :: "env \<Rightarrow> server \<Rightarrow> trace \<Rightarrow> trace" where
  "server_stop_wait E s t =
     (let r = (if \<not> process_terminated s then wait_timeout E t else 0);
          t1 = (if \<not> process_terminated s then t @ [Cond_wait_timeout r] else t);
          t2 = (if r = SDL_MUTEX_TIMEDOUT then t1 @ [Cmd_terminate (process s)] else t1)
      in t2 @ [SDL_WaitThread])"

definition server_stop :: "env \<Rightarrow> server \<Rightarrow> trace \<Rightarrow> server result" where
  "server_stop E s t =
     bind_result (server_stop_sockets E s t)
       (\<lambda>s1 t1.
          if process s1 = PROCESS_NONE then Inl (Assert_process_not_none, t1)
          else (let t2 = (if tunnel_enabled s1 \<and> \<not> direct s1
                          then snd (disable_tunnel E s1 t1) else t1);
                    t3 = (if direct s1 then snd (stop_server_curl E s1 t2) else t2)
                in Inr (s1, server_stop_wait E s1 t3)))"

definition server_destroy :: "server \<Rightarrow> trace \<Rightarrow> trace" where
  "server_destroy s t = t @ [SDL_free_serial, SDL_free_url, SDL_DestroyCond, SDL_DestroyMutex]"

subsection \<open>Reading the events\<close>

text \<open>The events a call added to the events before it.\<close>

definition events_since :: "trace \<Rightarrow> trace \<Rightarrow> trace" where
  "events_since t t' = drop (length t) t'"

text \<open>The candidate ports of the bridge commands in a list of events, in order.\<close>

definition reverse_tried :: "event \<Rightarrow> u16 list" where
  "reverse_tried e = (case e of Adb (Adb_reverse ser name p) ok \<Rightarrow> [p] | _ \<Rightarrow> [])"

definition forward_tried :: "event \<Rightarrow> u16 list" where
  "forward_tried e = (case e of Adb (Adb_forward ser p name) ok \<Rightarrow> [p] | _ \<Rightarrow> [])"

definition reverse_ports :: "trace \<Rightarrow> u16 list" where
  "reverse_ports t = concat (map reverse_tried t)"

definition forward_ports :: "trace \<Rightarrow> u16 list" where
  "forward_ports t = concat (map forward_tried t)"

text \<open>
  Every removal of the reverse tunnel in a list of events comes directly after a
  successful reverse command on a port and the failed listen on that port.
\<close>

definition remove_follows_failed_listen :: "string option \<Rightarrow> trace \<Rightarrow> bool" where
  "remove_follows_failed_listen sr new =
     (\<forall>pre ser n rm post. new = pre @ Adb (Adb_reverse_remove ser n) rm # post \<longrightarrow>
        (\<exists>pre' p. pre = pre' @ [Adb (Adb_reverse sr SOCKET_NAME p) True,
                                 Net_listen IPV4_LOCALHOST p 1 INVALID_SOCKET]))"

text \<open>The connection attempts and the sleeps in a list of events.\<close>

definition is_probe :: "event \<Rightarrow> bool" where
  "is_probe e = (case e of Net_connect a p sock \<Rightarrow> True | _ \<Rightarrow> False)"

definition is_delay :: "event \<Rightarrow> bool" where
  "is_delay e = (case e of SDL_Delay d \<Rightarrow> True | _ \<Rightarrow> False)"

definition probes :: "trace \<Rightarrow> nat" where
  "probes t = length (filter is_probe t)"

definition delays :: "trace \<Rightarrow> nat" where
  "delays t = length (filter is_delay t)"

text \<open>
  The events of one failed attempt followed by its sleep: a connect to the
  address and port, no further connect, and one sleep, which comes last.
\<close>

definition attempt_then_sleep :: "u32 \<Rightarrow> u16 \<Rightarrow> u32 \<Rightarrow> trace \<Rightarrow> bool" where
  "attempt_then_sleep a port delay b =
     (case b of
        Net_connect a' port' sock # rest \<Rightarrow>
          a' = a \<and> port' = port \<and> rest \<noteq> [] \<and> last rest = SDL_Delay delay \<and>
          probes rest = 0 \<and> delays rest = 1
      | _ \<Rightarrow> False)"

text \<open>
  The number of bytes that the recv calls in a list of events took off a
  socket: what a later reader of the socket no longer sees.
\<close>

definition received_bytes :: "socket_t \<Rightarrow> trace \<Rightarrow> int" where
  "received_bytes sock t =
     sum_list (map (\<lambda>e. case e of Net_recv s n k \<Rightarrow> if s = sock \<and> k > 0 then k else 0
                          | _ \<Rightarrow> 0) t)"

subsection \<open>The two threads and the listening socket\<close>

text \<open>
  From the creation of the thread on, run_wait_server runs beside the thread
  that calls server_connect_to and server_stop.  The only variable both write
  is the atomic flag \<open>server_socket_closed\<close>; \<open>server_socket\<close> is written before
  the thread exists.  The part of the code that touches the listening socket
  is therefore embedded a second time, as a transition system: a state holds
  the place of each thread in the code, the struct they share and the list of
  the calls \<open>close_socket(server->server_socket)\<close> made so far, and a step is one
  action of one thread.  \<open>atomic_flag_test_and_set\<close> is one step: it sets the flag
  and the thread goes on according to the value the flag had.

  The places of the thread that runs server_start (from the call of
  execute_server_adb on, where the tunnel is enabled), then optionally
  server_connect_to, then server_stop:
\<close>

datatype lifecycle_pc =
    At_execute_server
  | At_create_thread
  | At_error2
  | At_error2_close
  | Start_failed
  | Start_succeeded
  | At_connect
  | At_accept_video
  | At_accept_control
  | At_connect_flag
  | At_connect_close
  | Connect_returned
  | At_stop_flag
  | At_stop_close
  | At_stop_sockets
  | At_wait_thread
  | Stop_returned
  | Assertion_failed

text \<open>The places of run_wait_server.\<close>

datatype wait_pc =
    Not_created
  | At_cmd_wait
  | At_signal
  | At_wait_flag
  | At_wait_close
  | Thread_returned

text \<open>Who called close_socket on the listening socket.\<close>

datatype closer = Closed_by_start | Closed_by_connect | Closed_by_stop | Closed_by_wait_thread

record session =
  lifecycle :: lifecycle_pc
  wait_thread :: wait_pc
  shared :: server
  listen_closes :: "closer list"

definition test_and_set :: "server \<Rightarrow> server" where
  "test_and_set s = s\<lparr>server_socket_closed := True\<rparr>"

text \<open>
  The steps.  Of server_start (lines 519 to 551 of server.c):
  execute_server_adb returns a process or PROCESS_NONE; SDL_CreateThread
  succeeds (the wait thread starts) or fails; label \<open>error2\<close> with its
  test-and-set, its assertion and its close_socket.  Of server_connect_to
  (lines 564 to 622): the branch taken, the two accepts, the test-and-set and
  close_socket.  Of server_stop (lines 627 to 671): the test of the socket
  with the test-and-set, close_socket, the assertion on the process (one step
  with the closing of the two data sockets, the removal of the tunnel and the
  wait for the agent, which touch neither the flag nor the listening socket),
  and SDL_WaitThread, which returns only when the wait thread has returned.
  Of run_wait_server (lines 472 to 486): the end of cmd_simple_wait, the
  signal, the test of the socket with the test-and-set, close_socket.  A failed
  assertion, that of close_socket included, ends the run in
  \<open>Assertion_failed\<close>.
\<close>

inductive step :: "session \<Rightarrow> session \<Rightarrow> bool" where
  execute_ok:
    "lifecycle c = At_execute_server \<Longrightarrow>
     step c (c\<lparr>lifecycle := At_create_thread, shared := (shared c)\<lparr>process := Process p\<rparr>\<rparr>)"
| execute_failed:
    "lifecycle c = At_execute_server \<Longrightarrow>
     step c (c\<lparr>lifecycle := At_error2, shared := (shared c)\<lparr>process := PROCESS_NONE\<rparr>\<rparr>)"
| thread_created:
    "lifecycle c = At_create_thread \<Longrightarrow>
     step c (c\<lparr>lifecycle := Start_succeeded, wait_thread := At_cmd_wait,
               shared := (shared c)\<lparr>wait_server_thread := True, tunnel_enabled := True\<rparr>\<rparr>)"
| thread_failed:
    "lifecycle c = At_create_thread \<Longrightarrow>
     step c (c\<lparr>lifecycle := At_error2\<rparr>)"
| error2_flag:
    "lifecycle c = At_error2 \<Longrightarrow> \<not> tunnel_forward (shared c) \<Longrightarrow>
     step c (c\<lparr>lifecycle := (if server_socket_closed (shared c) then Assertion_failed
                               else At_error2_close),
               shared := test_and_set (shared c)\<rparr>)"
| error2_forward:
    "lifecycle c = At_error2 \<Longrightarrow> tunnel_forward (shared c) \<Longrightarrow>
     step c (c\<lparr>lifecycle := Start_failed\<rparr>)"
| error2_close:
    "lifecycle c = At_error2_close \<Longrightarrow>
     step c (if server_socket (shared c) = INVALID_SOCKET then c\<lparr>lifecycle := Assertion_failed\<rparr>
             else c\<lparr>lifecycle := Start_failed,
                    listen_closes := listen_closes c @ [Closed_by_start]\<rparr>)"
| call_connect:
    "lifecycle c = Start_succeeded \<Longrightarrow> step c (c\<lparr>lifecycle := At_connect\<rparr>)"
| call_stop:
    "lifecycle c = Start_succeeded \<Longrightarrow> step c (c\<lparr>lifecycle := At_stop_flag\<rparr>)"
| connect_by_connecting:
    "lifecycle c = At_connect \<Longrightarrow> direct (shared c) \<or> tunnel_forward (shared c) \<Longrightarrow>
     step c (c\<lparr>lifecycle := Connect_returned\<rparr>)"
| connect_by_accepting:
    "lifecycle c = At_connect \<Longrightarrow> \<not> direct (shared c) \<Longrightarrow> \<not> tunnel_forward (shared c) \<Longrightarrow>
     step c (c\<lparr>lifecycle := At_accept_video\<rparr>)"
| accept_video:
    "lifecycle c = At_accept_video \<Longrightarrow>
     step c (c\<lparr>lifecycle := (if v = INVALID_SOCKET then Connect_returned else At_accept_control),
               shared := (shared c)\<lparr>video_socket := v\<rparr>\<rparr>)"
| accept_control:
    "lifecycle c = At_accept_control \<Longrightarrow>
     step c (c\<lparr>lifecycle := (if v = INVALID_SOCKET then Connect_returned else At_connect_flag),
               shared := (shared c)\<lparr>control_socket := v\<rparr>\<rparr>)"
| connect_flag:
    "lifecycle c = At_connect_flag \<Longrightarrow>
     step c (c\<lparr>lifecycle := (if server_socket_closed (shared c) then Connect_returned
                               else At_connect_close),
               shared := test_and_set (shared c)\<rparr>)"
| connect_close:
    "lifecycle c = At_connect_close \<Longrightarrow>
     step c (if server_socket (shared c) = INVALID_SOCKET then c\<lparr>lifecycle := Assertion_failed\<rparr>
             else c\<lparr>lifecycle := Connect_returned,
                    listen_closes := listen_closes c @ [Closed_by_connect]\<rparr>)"
| stop_after_connect:
    "lifecycle c = Connect_returned \<Longrightarrow> step c (c\<lparr>lifecycle := At_stop_flag\<rparr>)"
| stop_no_listener:
    "lifecycle c = At_stop_flag \<Longrightarrow> server_socket (shared c) = INVALID_SOCKET \<Longrightarrow>
     step c (c\<lparr>lifecycle := At_stop_sockets\<rparr>)"
| stop_flag:
    "lifecycle c = At_stop_flag \<Longrightarrow> server_socket (shared c) \<noteq> INVALID_SOCKET \<Longrightarrow>
     step c (c\<lparr>lifecycle := (if server_socket_closed (shared c) then At_stop_sockets
                               else At_stop_close),
               shared := test_and_set (shared c)\<rparr>)"
| stop_close:
    "lifecycle c = At_stop_close \<Longrightarrow>
     step c (if server_socket (shared c) = INVALID_SOCKET then c\<lparr>lifecycle := Assertion_failed\<rparr>
             else c\<lparr>lifecycle := At_stop_sockets,
                    listen_closes := listen_closes c @ [Closed_by_stop]\<rparr>)"
| stop_sockets:
    "lifecycle c = At_stop_sockets \<Longrightarrow>
     step c (c\<lparr>lifecycle := (if process (shared c) = PROCESS_NONE then Assertion_failed
                               else At_wait_thread)\<rparr>)"
| stop_wait_thread:
    "lifecycle c = At_wait_thread \<Longrightarrow> wait_thread c = Thread_returned \<Longrightarrow>
     step c (c\<lparr>lifecycle := Stop_returned\<rparr>)"
| wait_process_exit:
    "wait_thread c = At_cmd_wait \<Longrightarrow> step c (c\<lparr>wait_thread := At_signal\<rparr>)"
| wait_signal:
    "wait_thread c = At_signal \<Longrightarrow>
     step c (c\<lparr>wait_thread := At_wait_flag,
               shared := (shared c)\<lparr>process_terminated := True\<rparr>\<rparr>)"
| wait_no_listener:
    "wait_thread c = At_wait_flag \<Longrightarrow> server_socket (shared c) = INVALID_SOCKET \<Longrightarrow>
     step c (c\<lparr>wait_thread := Thread_returned\<rparr>)"
| wait_flag:
    "wait_thread c = At_wait_flag \<Longrightarrow> server_socket (shared c) \<noteq> INVALID_SOCKET \<Longrightarrow>
     step c (c\<lparr>wait_thread := (if server_socket_closed (shared c) then Thread_returned
                                 else At_wait_close),
               shared := test_and_set (shared c)\<rparr>)"
| wait_close:
    "wait_thread c = At_wait_close \<Longrightarrow>
     step c (if server_socket (shared c) = INVALID_SOCKET then c\<lparr>lifecycle := Assertion_failed\<rparr>
             else c\<lparr>wait_thread := Thread_returned,
                    listen_closes := listen_closes c @ [Closed_by_wait_thread]\<rparr>)"

inductive steps :: "session \<Rightarrow> session \<Rightarrow> bool" where
  steps_none: "steps c c"
| steps_more: "steps c c' \<Longrightarrow> step c' c'' \<Longrightarrow> steps c c''"

text \<open>
  The state in which server_start has opened the listening socket: the
  cascade returned true in reverse mode, the flag is clear as server_init left
  it, no thread exists.
\<close>

definition listener_opened :: "session \<Rightarrow> bool" where
  "listener_opened c =
     (lifecycle c = At_execute_server \<and> wait_thread c = Not_created \<and> listen_closes c = [] \<and>
      server_socket (shared c) \<noteq> INVALID_SOCKET \<and> \<not> server_socket_closed (shared c) \<and>
      \<not> tunnel_forward (shared c) \<and> \<not> direct (shared c))"

text \<open>
  The threads that have won the flag and have not yet called close_socket, and
  the invariant that ties them and the calls made to the flag.
\<close>

definition closing :: "session \<Rightarrow> nat" where
  "closing c =
     (if lifecycle c = At_error2_close \<or> lifecycle c = At_connect_close \<or>
         lifecycle c = At_stop_close then 1 else 0) +
     (if wait_thread c = At_wait_close then 1 else 0)"

definition close_authority :: "session \<Rightarrow> bool" where
  "close_authority c =
     (server_socket (shared c) \<noteq> INVALID_SOCKET \<and> \<not> tunnel_forward (shared c) \<and>
      \<not> direct (shared c) \<and>
      lifecycle c \<noteq> Assertion_failed \<and>
      length (listen_closes c) + closing c = (if server_socket_closed (shared c) then 1 else 0) \<and>
      (if lifecycle c = At_execute_server \<or> lifecycle c = At_create_thread \<or>
          lifecycle c = At_error2
       then wait_thread c = Not_created \<and> \<not> server_socket_closed (shared c)
       else if lifecycle c = At_error2_close \<or> lifecycle c = Start_failed
       then wait_thread c = Not_created \<and> server_socket_closed (shared c)
       else wait_thread c \<noteq> Not_created \<and> process (shared c) \<noteq> PROCESS_NONE) \<and>
      (if lifecycle c = At_stop_close \<or> lifecycle c = At_stop_sockets \<or>
          lifecycle c = At_wait_thread \<or> lifecycle c = Stop_returned
       then server_socket_closed (shared c) else True) \<and>
      (if lifecycle c = At_create_thread then process (shared c) \<noteq> PROCESS_NONE else True) \<and>
      (if lifecycle c = Stop_returned then wait_thread c = Thread_returned else True))"

subsection \<open>Concrete environments, servers and runs\<close>

text \<open>An environment in which every call fails.\<close>

definition env_refusing :: env where
  "env_refusing =
     \<lparr>adb_success = (\<lambda>t c. False),
      adb_executed = (\<lambda>t ser cmd. PROCESS_NONE),
      listened = (\<lambda>t a p. INVALID_SOCKET),
      connected = (\<lambda>t a p. INVALID_SOCKET),
      accepted = (\<lambda>t l. INVALID_SOCKET),
      received = (\<lambda>t sock n. - 1),
      closed_ok = (\<lambda>t sock. False),
      curl_response = (\<lambda>t u. (- 1, [])),
      server_path = (\<lambda>t. None),
      regular_file = (\<lambda>t f. False),
      strdup_ok = (\<lambda>t. False),
      mutex_created = (\<lambda>t. False),
      cond_created = (\<lambda>t. False),
      thread_created = (\<lambda>t. False),
      wait_timeout = (\<lambda>t. 1),
      SCRCPY_VERSION = ''1.17''\<rparr>"

text \<open>
  An environment in which every call succeeds; a new socket is numbered by
  the count of events before it.
\<close>

definition env_serving :: env where
  "env_serving =
     \<lparr>adb_success = (\<lambda>t c. True),
      adb_executed = (\<lambda>t ser cmd. Process 4242),
      listened = (\<lambda>t a p. Socket (length t)),
      connected = (\<lambda>t a p. Socket (length t)),
      accepted = (\<lambda>t l. Socket (length t)),
      received = (\<lambda>t sock n. 1),
      closed_ok = (\<lambda>t sock. True),
      curl_response = (\<lambda>t u. (7, ''success'')),
      server_path = (\<lambda>t. Some ''/usr/local/share/scrcpy/scrcpy-server''),
      regular_file = (\<lambda>t f. True),
      strdup_ok = (\<lambda>t. True),
      mutex_created = (\<lambda>t. True),
      cond_created = (\<lambda>t. True),
      thread_created = (\<lambda>t. True),
      wait_timeout = (\<lambda>t. 0),
      SCRCPY_VERSION = ''1.17''\<rparr>"

text \<open>The bridge refuses every reverse command and accepts the others.\<close>

definition env_no_reverse :: env where
  "env_no_reverse =
     env_serving\<lparr>adb_success :=
       (\<lambda>t c. case c of Adb_reverse ser n p \<Rightarrow> False | _ \<Rightarrow> True)\<rparr>"

text \<open>Port 27183 is taken; every other call succeeds.\<close>

definition env_port_busy :: env where
  "env_port_busy =
     env_serving\<lparr>listened :=
       (\<lambda>t a p. if p = 27183 then INVALID_SOCKET else Socket (length t))\<rparr>"

text \<open>The agent accepts the connection and closes it without a byte.\<close>

definition env_silent_agent :: env where
  "env_silent_agent = env_serving\<lparr>received := (\<lambda>t sock n. 0)\<rparr>"

text \<open>The HTTP GET fails; every other call succeeds.\<close>

definition env_curl_down :: env where
  "env_curl_down = env_serving\<lparr>curl_response := (\<lambda>t u. (- 1, []))\<rparr>"

text \<open>The server as server_init leaves it.\<close>

definition server_initialized :: server where
  "server_initialized =
     \<lparr>serial = None, url = None, addr = 0, process = PROCESS_NONE,
      wait_server_thread = False, server_socket_closed = False,
      mutex = True, process_terminated_cond = True, process_terminated = False,
      server_socket = INVALID_SOCKET, video_socket = INVALID_SOCKET,
      control_socket = INVALID_SOCKET,
      port_range = \<lparr>first_port = 0, last_port = 0\<rparr>, local_port = 0,
      tunnel_enabled = False, tunnel_forward = False, direct = False\<rparr>"

text \<open>
  A server set up for direct mode after server_init: the caller sets
  \<open>direct\<close>, \<open>url\<close> and \<open>addr\<close> (scenario S5 of the spec).
\<close>

definition server_direct :: server where
  "server_direct =
     server_initialized\<lparr>direct := True, url := Some ''http://10.0.0.2:8080'',
                        addr := 0x0A000002\<rparr>"

definition default_params :: server_params where
  "default_params =
     \<lparr>log_level = SC_LOG_LEVEL_INFO, crop = None, codec_options = None,
      encoder_name = None,
      params_port_range = \<lparr>first_port = 27183, last_port = 27199\<rparr>,
      max_size = 0, bit_rate = 8000000, max_fps = 0, lock_video_orientation = - 1,
      control = True, display_id = 0, show_touches = False, stay_awake = False,
      force_adb_forward = False\<rparr>"

text \<open>A server in reverse mode after a successful start, listening on socket 1.\<close>

definition server_listening :: server where
  "server_listening =
     server_initialized\<lparr>server_socket := Socket 1, local_port := 27183,
        process := Process 4242, wait_server_thread := True, tunnel_enabled := True,
        port_range := \<lparr>first_port = 27183, last_port = 27199\<rparr>\<rparr>"

text \<open>
  Scenario S4 of the spec as a run: the start succeeds, the agent dies, the
  wait thread closes the listening socket, server_stop finds the flag set.
\<close>

definition session_opened :: session where
  "session_opened =
     \<lparr>lifecycle = At_execute_server, wait_thread = Not_created,
      shared = server_initialized\<lparr>server_socket := Socket 1, local_port := 27183,
                 port_range := \<lparr>first_port = 27183, last_port = 27199\<rparr>\<rparr>,
      listen_closes = []\<rparr>"

definition session_running :: session where
  "session_running =
     session_opened\<lparr>lifecycle := Start_succeeded, wait_thread := At_cmd_wait,
       shared := (shared session_opened)\<lparr>process := Process 4242,
          wait_server_thread := True, tunnel_enabled := True\<rparr>\<rparr>"

definition session_agent_died :: session where
  "session_agent_died =
     session_running\<lparr>wait_thread := Thread_returned,
       shared := (shared session_running)\<lparr>process_terminated := True,
          server_socket_closed := True\<rparr>,
       listen_closes := [Closed_by_wait_thread]\<rparr>"

section \<open>Properties\<close>

subsection \<open>Initialisation\<close>

text \<open>Whenever server_init returns true, it leaves the server \<open>server_initialized\<close>.\<close>

lemma server_init_initialized:
  "server_init E s t = (True, s', t') \<Longrightarrow> s' = server_initialized"
  by (cases s)
     (auto simp add: server_init_def server_initialized_def Let_def split: if_splits)

subsection \<open>The port sweeps\<close>

lemma inc_no_wrap: "(port :: u16) < l \<Longrightarrow> unat (port + 1) = unat port + 1"
proof -
  assume lt: "port < l"
  have "unat l < 2 ^ 16" using unsigned_less [of l] by simp
  with lt have "unat port + 1 < 2 ^ 16" by (simp add: word_less_nat_alt)
  then show ?thesis by (simp add: unat_word_ariths)
qed

lemmas tunnel_defs = enable_tunnel_reverse_def disable_tunnel_reverse_def
  enable_tunnel_forward_def disable_tunnel_forward_def adb_check_def listen_on_port_def

lemma reverse_loop_ports:
  "port \<le> last_port r \<Longrightarrow>
   \<exists>new k. snd (snd (enable_tunnel_reverse_loop E s r port t)) = t @ new \<and> 1 \<le> k \<and>
      unat port + k \<le> unat (last_port r) + 1 \<and>
      map unat (reverse_ports new) = [unat port ..< unat port + k]"
proof (induction E s r port t rule: enable_tunnel_reverse_loop.induct)
  case (1 E s r port t)
  let ?rev = "Adb (Adb_reverse (serial s) SOCKET_NAME port)"
  let ?t1 = "t @ [?rev True]"
  let ?sock = "listened E ?t1 IPV4_LOCALHOST port"
  let ?t2 = "?t1 @ [Net_listen IPV4_LOCALHOST port 1 ?sock]"
  let ?rm = "Adb (Adb_reverse_remove (serial s) SOCKET_NAME) (adb_success E ?t2 (Adb_reverse_remove (serial s) SOCKET_NAME))"
  let ?t3 = "?t2 @ [?rm]"
  have le: "unat port \<le> unat (last_port r)" using "1.prems" by (simp add: word_le_nat_alt)
  show ?case
  proof (cases "adb_success E t (Adb_reverse (serial s) SOCKET_NAME port)")
    case False
    then have "snd (snd (enable_tunnel_reverse_loop E s r port t)) = t @ [?rev False]"
      by (subst enable_tunnel_reverse_loop.simps) (simp add: tunnel_defs)
    moreover have "map unat (reverse_ports [?rev False]) = [unat port ..< unat port + 1]"
      by (simp add: reverse_ports_def reverse_tried_def)
    ultimately show ?thesis using le by (intro exI [of _ "[?rev False]"] exI [of _ 1]) simp
  next
    case ok: True
    show ?thesis
    proof (cases "?sock = INVALID_SOCKET")
      case False
      with ok have "snd (snd (enable_tunnel_reverse_loop E s r port t)) =
          t @ [?rev True, Net_listen IPV4_LOCALHOST port 1 ?sock]"
        by (subst enable_tunnel_reverse_loop.simps) (simp add: tunnel_defs Let_def)
      moreover have "map unat (reverse_ports [?rev True, Net_listen IPV4_LOCALHOST port 1 ?sock])
          = [unat port ..< unat port + 1]"
        by (simp add: reverse_ports_def reverse_tried_def)
      ultimately show ?thesis using le
        by (intro exI [of _ "[?rev True, Net_listen IPV4_LOCALHOST port 1 ?sock]"] exI [of _ 1]) simp
    next
      case inv: True
      show ?thesis
      proof (cases "port < last_port r")
        case False
        with ok inv have "snd (snd (enable_tunnel_reverse_loop E s r port t)) =
            t @ [?rev True, Net_listen IPV4_LOCALHOST port 1 ?sock, ?rm]"
          by (subst enable_tunnel_reverse_loop.simps) (simp add: tunnel_defs Let_def)
        moreover have "map unat (reverse_ports [?rev True, Net_listen IPV4_LOCALHOST port 1 ?sock, ?rm])
            = [unat port ..< unat port + 1]"
          by (simp add: reverse_ports_def reverse_tried_def)
        ultimately show ?thesis using le
          by (intro exI [of _ "[?rev True, Net_listen IPV4_LOCALHOST port 1 ?sock, ?rm]"] exI [of _ 1]) simp
      next
        case lt: True
        have eq: "enable_tunnel_reverse_loop E s r port t =
            enable_tunnel_reverse_loop E (s\<lparr>server_socket := ?sock\<rparr>) r (port + 1) ?t3"
          using ok inv lt
          by (subst enable_tunnel_reverse_loop.simps) (simp add: tunnel_defs Let_def)
        have inc: "unat (port + 1) = unat port + 1" using lt by (rule inc_no_wrap)
        have le': "port + 1 \<le> last_port r" using lt by (rule inc_le)
        have "\<exists>new k. snd (snd (enable_tunnel_reverse_loop E (s\<lparr>server_socket := ?sock\<rparr>) r (port + 1) ?t3))
             = ?t3 @ new \<and> 1 \<le> k \<and> unat (port + 1) + k \<le> unat (last_port r) + 1 \<and>
             map unat (reverse_ports new) = [unat (port + 1) ..< unat (port + 1) + k]"
          using ok inv lt le'
          using "1.IH" [OF prod.collapse _ prod.collapse _ prod.collapse lt le'] ok inv
          by (simp add: tunnel_defs Let_def)
        then obtain new k where new:
          "snd (snd (enable_tunnel_reverse_loop E (s\<lparr>server_socket := ?sock\<rparr>) r (port + 1) ?t3)) = ?t3 @ new"
          "1 \<le> k" "unat (port + 1) + k \<le> unat (last_port r) + 1"
          "map unat (reverse_ports new) = [unat (port + 1) ..< unat (port + 1) + k]"
          by blast
        let ?new = "[?rev True, Net_listen IPV4_LOCALHOST port 1 ?sock, ?rm] @ new"
        have "snd (snd (enable_tunnel_reverse_loop E s r port t)) = t @ ?new"
          using eq new(1) by simp
        moreover have "map unat (reverse_ports ?new) = [unat port ..< unat port + Suc k]"
          using new(4) inc by (simp add: reverse_ports_def reverse_tried_def upt_conv_Cons)
        moreover have "unat port + Suc k \<le> unat (last_port r) + 1" using new(3) inc by simp
        ultimately show ?thesis
          by (intro exI [of _ ?new] exI [of _ "Suc k"]) simp
      qed
    qed
  qed
qed


lemma events_since_append [simp]: "events_since t (t @ new) = new"
  by (simp add: events_since_def)

lemma forward_loop_ports:
  "port \<le> last_port r \<Longrightarrow>
   \<exists>new k. snd (snd (enable_tunnel_forward_loop E s r port t)) = t @ new \<and> 1 \<le> k \<and>
      unat port + k \<le> unat (last_port r) + 1 \<and>
      map unat (forward_ports new) = [unat port ..< unat port + k]"
proof (induction E s r port t rule: enable_tunnel_forward_loop.induct)
  case (1 E s r port t)
  let ?ok = "adb_success E t (Adb_forward (serial s) port SOCKET_NAME)"
  let ?fw = "Adb (Adb_forward (serial s) port SOCKET_NAME) ?ok"
  let ?t1 = "t @ [?fw]"
  have le: "unat port \<le> unat (last_port r)" using "1.prems" by (simp add: word_le_nat_alt)
  have one: "map unat (forward_ports [?fw]) = [unat port ..< unat port + 1]"
    by (simp add: forward_ports_def forward_tried_def)
  have stop: "snd (snd (enable_tunnel_forward_loop E s r port t)) = t @ [?fw]"
    if "?ok \<or> \<not> port < last_port r"
  proof (cases ?ok)
    case True
    then show ?thesis
      by (subst enable_tunnel_forward_loop.simps) (simp add: tunnel_defs Let_def)
  next
    case False
    with that have "\<not> port < last_port r" by simp
    with False show ?thesis
      by (subst enable_tunnel_forward_loop.simps) (simp add: tunnel_defs Let_def)
  qed
  show ?case
  proof (cases "\<not> ?ok \<and> port < last_port r")
    case False
    then have "snd (snd (enable_tunnel_forward_loop E s r port t)) = t @ [?fw]"
      using stop by blast
    with one le show ?thesis by (intro exI [of _ "[?fw]"] exI [of _ 1]) simp
  next
    case True
    then have nok: "\<not> ?ok" and lt: "port < last_port r" by simp_all
    have eq: "enable_tunnel_forward_loop E s r port t =
        enable_tunnel_forward_loop E s r (port + 1) ?t1"
      using nok lt by (subst enable_tunnel_forward_loop.simps) (simp add: tunnel_defs Let_def)
    have inc: "unat (port + 1) = unat port + 1" using lt by (rule inc_no_wrap)
    have le': "port + 1 \<le> last_port r" using lt by (rule inc_le)
    have "\<exists>new k. snd (snd (enable_tunnel_forward_loop E s r (port + 1) ?t1))
         = ?t1 @ new \<and> 1 \<le> k \<and> unat (port + 1) + k \<le> unat (last_port r) + 1 \<and>
         map unat (forward_ports new) = [unat (port + 1) ..< unat (port + 1) + k]"
      using "1.IH" [OF prod.collapse _ lt le'] nok
      by (simp add: tunnel_defs Let_def)
    then obtain new k where new:
      "snd (snd (enable_tunnel_forward_loop E s r (port + 1) ?t1)) = ?t1 @ new"
      "1 \<le> k" "unat (port + 1) + k \<le> unat (last_port r) + 1"
      "map unat (forward_ports new) = [unat (port + 1) ..< unat (port + 1) + k]"
      by blast
    let ?new = "[?fw] @ new"
    have "snd (snd (enable_tunnel_forward_loop E s r port t)) = t @ ?new"
      using eq new(1) by simp
    moreover have "map unat (forward_ports ?new) = [unat port ..< unat port + Suc k]"
      using new(4) inc by (simp add: forward_ports_def forward_tried_def upt_conv_Cons)
    moreover have "unat port + Suc k \<le> unat (last_port r) + 1" using new(3) inc by simp
    ultimately show ?thesis
      by (intro exI [of _ ?new] exI [of _ "Suc k"]) simp
  qed
qed



text \<open>
  C4.  For a port range with \<open>first \<le> last\<close>, the reverse sweep and the forward
  sweep each try the ports \<open>first, first + 1, \<dots>\<close> in order, at least one and at
  most \<open>last - first + 1\<close> of them, and return (both loops are total
  functions).  The ports tried, read as natural numbers, are consecutive and
  stay below 65536: the counter never wraps.  With \<open>first = last = 65535\<close>
  exactly the port 65535 is tried.
\<close>

theorem port_sweep_bounded:
  assumes "first_port r \<le> last_port r"
  shows "(\<exists>k. 1 \<le> k \<and> k \<le> unat (last_port r) - unat (first_port r) + 1 \<and>
            unat (first_port r) + k \<le> 65536 \<and>
            map unat (reverse_ports (events_since t
                (snd (snd (enable_tunnel_reverse_any_port E s r t)))))
              = [unat (first_port r) ..< unat (first_port r) + k]) \<and>
         (\<exists>k. 1 \<le> k \<and> k \<le> unat (last_port r) - unat (first_port r) + 1 \<and>
            unat (first_port r) + k \<le> 65536 \<and>
            map unat (forward_ports (events_since t
                (snd (snd (enable_tunnel_forward_any_port E s r t)))))
              = [unat (first_port r) ..< unat (first_port r) + k]) \<and>
         (first_port r = 0xFFFF \<and> last_port r = 0xFFFF \<longrightarrow>
            reverse_ports (events_since t
                (snd (snd (enable_tunnel_reverse_any_port E s r t)))) = [0xFFFF] \<and>
            forward_ports (events_since t
                (snd (snd (enable_tunnel_forward_any_port E s r t)))) = [0xFFFF])"
proof -
  let ?a = "unat (first_port r)" and ?b = "unat (last_port r)"
  have b: "?b < 65536" using unsigned_less [of "last_port r"] by simp
  have ab: "?a \<le> ?b" using assms by (simp add: word_le_nat_alt)
  let ?R = "reverse_ports (events_since t (snd (snd (enable_tunnel_reverse_any_port E s r t))))"
  let ?F = "forward_ports (events_since t (snd (snd (enable_tunnel_forward_any_port E s r t))))"
  obtain new k where rv: "snd (snd (enable_tunnel_reverse_any_port E s r t)) = t @ new"
      "1 \<le> k" "?a + k \<le> ?b + 1" "map unat (reverse_ports new) = [?a ..< ?a + k]"
    using reverse_loop_ports [OF assms, of E s t]
    unfolding enable_tunnel_reverse_any_port_def by blast
  obtain new' k' where fw: "snd (snd (enable_tunnel_forward_any_port E s r t)) = t @ new'"
      "1 \<le> k'" "?a + k' \<le> ?b + 1" "map unat (forward_ports new') = [?a ..< ?a + k']"
    using forward_loop_ports [OF assms, of E "s\<lparr>tunnel_forward := True\<rparr>" t]
    unfolding enable_tunnel_forward_any_port_def by blast
  have R: "map unat ?R = [?a ..< ?a + k]" using rv by simp
  have F: "map unat ?F = [?a ..< ?a + k']" using fw by simp
  have c1: "\<exists>k. 1 \<le> k \<and> k \<le> ?b - ?a + 1 \<and> ?a + k \<le> 65536 \<and> map unat ?R = [?a ..< ?a + k]"
    using R rv(2,3) ab b by (intro exI [of _ k]) simp
  have c2: "\<exists>k. 1 \<le> k \<and> k \<le> ?b - ?a + 1 \<and> ?a + k \<le> 65536 \<and> map unat ?F = [?a ..< ?a + k]"
    using F fw(2,3) ab b by (intro exI [of _ k']) simp
  have c3: "?R = [0xFFFF] \<and> ?F = [0xFFFF]"
    if top: "first_port r = 0xFFFF \<and> last_port r = 0xFFFF"
  proof -
    from top rv(2,3) have "k = 1" by simp
    with R top have "map unat ?R = map unat [0xFFFF :: u16]" by simp
    then have r: "?R = [0xFFFF]" by (simp only: inj_map_eq_map [OF unsigned_word_eqI [THEN injI]]) 
    from top fw(2,3) have "k' = 1" by simp
    with F top have "map unat ?F = map unat [0xFFFF :: u16]" by simp
    then have f: "?F = [0xFFFF]" by (simp only: inj_map_eq_map [OF unsigned_word_eqI [THEN injI]]) 
    from r f show ?thesis by simp
  qed
  from c1 c2 c3 show ?thesis by blast
qed



theorem port_sweep_bounded_witness:
  "reverse_ports (events_since []
      (snd (snd (enable_tunnel_reverse_any_port env_refusing server_initialized
         \<lparr>first_port = 0xFFFF, last_port = 0xFFFF\<rparr> [])))) = [0xFFFF] \<and>
   forward_ports (events_since []
      (snd (snd (enable_tunnel_forward_any_port env_refusing server_initialized
         \<lparr>first_port = 0xFFFF, last_port = 0xFFFF\<rparr> [])))) = [0xFFFF]"
  using port_sweep_bounded [of "\<lparr>first_port = 0xFFFF, last_port = 0xFFFF\<rparr>" "[]"
      env_refusing server_initialized]
  by simp

lemma split_after_three:
  "a # b # c # rest = pre @ x # post \<Longrightarrow> x \<noteq> a \<Longrightarrow> x \<noteq> b \<Longrightarrow>
   (pre = [a, b] \<and> x = c \<and> post = rest) \<or>
   (\<exists>pre2. pre = a # b # c # pre2 \<and> rest = pre2 @ x # post)"
  by (auto simp add: Cons_eq_append_conv)

lemma split_in_one: "[a] = pre @ x # post \<Longrightarrow> x = a"
  by (auto simp add: Cons_eq_append_conv)

lemma split_in_two: "[a, b] = pre @ x # post \<Longrightarrow> x = a \<or> x = b"
  by (auto simp add: Cons_eq_append_conv)

lemma reverse_loop_remove:
  "\<exists>new. snd (snd (enable_tunnel_reverse_loop E s r port t)) = t @ new \<and>
     remove_follows_failed_listen (serial s) new"
proof (induction E s r port t rule: enable_tunnel_reverse_loop.induct)
  case (1 E s r port t)
  let ?rev = "Adb (Adb_reverse (serial s) SOCKET_NAME port)"
  let ?t1 = "t @ [?rev True]"
  let ?sock = "listened E ?t1 IPV4_LOCALHOST port"
  let ?lis = "Net_listen IPV4_LOCALHOST port 1 ?sock"
  let ?t2 = "?t1 @ [?lis]"
  let ?rm = "Adb (Adb_reverse_remove (serial s) SOCKET_NAME) (adb_success E ?t2 (Adb_reverse_remove (serial s) SOCKET_NAME))"
  let ?t3 = "?t2 @ [?rm]"
  show ?case
  proof (cases "adb_success E t (Adb_reverse (serial s) SOCKET_NAME port)")
    case False
    then have "snd (snd (enable_tunnel_reverse_loop E s r port t)) = t @ [?rev False]"
      by (subst enable_tunnel_reverse_loop.simps) (simp add: tunnel_defs)
    moreover have "remove_follows_failed_listen (serial s) [?rev False]"
      unfolding remove_follows_failed_listen_def by (auto dest: split_in_one)
    ultimately show ?thesis by blast
  next
    case ok: True
    show ?thesis
    proof (cases "?sock = INVALID_SOCKET")
      case False
      with ok have "snd (snd (enable_tunnel_reverse_loop E s r port t)) = t @ [?rev True, ?lis]"
        by (subst enable_tunnel_reverse_loop.simps) (simp add: tunnel_defs Let_def)
      moreover have "remove_follows_failed_listen (serial s) [?rev True, ?lis]"
        unfolding remove_follows_failed_listen_def by (auto dest: split_in_two)
      ultimately show ?thesis by blast
    next
      case inv: True
      have here: "\<exists>pre' p. pre = pre' @ [Adb (Adb_reverse (serial s) SOCKET_NAME p) True,
                            Net_listen IPV4_LOCALHOST p 1 INVALID_SOCKET]"
        if "pre = [?rev True, ?lis]" for pre
        using that inv by (intro exI [of _ "[]"] exI [of _ port]) simp
      show ?thesis
      proof (cases "port < last_port r")
        case False
        with ok inv have "snd (snd (enable_tunnel_reverse_loop E s r port t)) =
            t @ [?rev True, ?lis, ?rm]"
          by (subst enable_tunnel_reverse_loop.simps) (simp add: tunnel_defs Let_def)
        moreover have "remove_follows_failed_listen (serial s) [?rev True, ?lis, ?rm]"
          unfolding remove_follows_failed_listen_def
        proof (intro allI impI)
          fix pre ser n rm post
          assume "[?rev True, ?lis, ?rm] = pre @ Adb (Adb_reverse_remove ser n) rm # post"
          then have "?rev True # ?lis # ?rm # [] = pre @ Adb (Adb_reverse_remove ser n) rm # post"
            by simp
          then have "pre = [?rev True, ?lis]"
            by (auto dest!: split_after_three)
          then show "\<exists>pre' p. pre = pre' @ [Adb (Adb_reverse (serial s) SOCKET_NAME p) True,
                            Net_listen IPV4_LOCALHOST p 1 INVALID_SOCKET]"
            by (rule here)
        qed
        ultimately show ?thesis by blast
      next
        case lt: True
        have eq: "enable_tunnel_reverse_loop E s r port t =
            enable_tunnel_reverse_loop E (s\<lparr>server_socket := ?sock\<rparr>) r (port + 1) ?t3"
          using ok inv lt
          by (subst enable_tunnel_reverse_loop.simps) (simp add: tunnel_defs Let_def)
        have "\<exists>new. snd (snd (enable_tunnel_reverse_loop E (s\<lparr>server_socket := ?sock\<rparr>) r (port + 1) ?t3))
              = ?t3 @ new \<and> remove_follows_failed_listen (serial (s\<lparr>server_socket := ?sock\<rparr>)) new"
          using "1.IH" [OF prod.collapse _ prod.collapse _ prod.collapse lt] ok inv
          by (simp add: tunnel_defs Let_def)
        then obtain rest where rest:
          "snd (snd (enable_tunnel_reverse_loop E (s\<lparr>server_socket := ?sock\<rparr>) r (port + 1) ?t3)) = ?t3 @ rest"
          "remove_follows_failed_listen (serial s) rest"
          by auto
        have "snd (snd (enable_tunnel_reverse_loop E s r port t)) = t @ (?rev True # ?lis # ?rm # rest)"
          using eq rest(1) by simp
        moreover have "remove_follows_failed_listen (serial s) (?rev True # ?lis # ?rm # rest)"
          unfolding remove_follows_failed_listen_def
        proof (intro allI impI)
          fix pre ser n rm post
          let ?X = "Adb (Adb_reverse_remove ser n) rm"
          assume "?rev True # ?lis # ?rm # rest = pre @ ?X # post"
          then consider "pre = [?rev True, ?lis]"
            | pre2 where "pre = ?rev True # ?lis # ?rm # pre2" "rest = pre2 @ ?X # post"
            by (auto dest!: split_after_three)
          then show "\<exists>pre' p. pre = pre' @ [Adb (Adb_reverse (serial s) SOCKET_NAME p) True,
                            Net_listen IPV4_LOCALHOST p 1 INVALID_SOCKET]"
          proof cases
            case 1
            then show ?thesis by (rule here)
          next
            case 2
            from rest(2) 2(2) obtain pre' p where
              "pre2 = pre' @ [Adb (Adb_reverse (serial s) SOCKET_NAME p) True,
                            Net_listen IPV4_LOCALHOST p 1 INVALID_SOCKET]"
              unfolding remove_follows_failed_listen_def by blast
            with 2(1) show ?thesis
              by (intro exI [of _ "?rev True # ?lis # ?rm # pre'"] exI [of _ p]) simp
          qed
        qed
        ultimately show ?thesis by blast
      qed
    qed
  qed
qed

lemma forward_loop_extends:
  "\<exists>new. snd (snd (enable_tunnel_forward_loop E s r port t)) = t @ new"
proof (induction E s r port t rule: enable_tunnel_forward_loop.induct)
  case (1 E s r port t)
  let ?ok = "adb_success E t (Adb_forward (serial s) port SOCKET_NAME)"
  let ?t1 = "t @ [Adb (Adb_forward (serial s) port SOCKET_NAME) ?ok]"
  show ?case
  proof (cases "\<not> ?ok \<and> port < last_port r")
    case True
    then have "enable_tunnel_forward_loop E s r port t =
        enable_tunnel_forward_loop E s r (port + 1) ?t1"
      by (subst enable_tunnel_forward_loop.simps) (simp add: tunnel_defs Let_def)
    moreover have "\<exists>new. snd (snd (enable_tunnel_forward_loop E s r (port + 1) ?t1)) = ?t1 @ new"
      using "1.IH" [OF prod.collapse] True by (simp add: tunnel_defs Let_def)
    ultimately show ?thesis by auto
  next
    case False
    then have "snd (snd (enable_tunnel_forward_loop E s r port t)) = ?t1"
      by (subst enable_tunnel_forward_loop.simps) (auto simp add: tunnel_defs Let_def)
    then show ?thesis by simp
  qed
qed

lemma forward_loop_first:
  "\<exists>ok rest. snd (snd (enable_tunnel_forward_loop E s r port t)) =
     t @ Adb (Adb_forward (serial s) port SOCKET_NAME) ok # rest"
proof -
  let ?ok = "adb_success E t (Adb_forward (serial s) port SOCKET_NAME)"
  let ?t1 = "t @ [Adb (Adb_forward (serial s) port SOCKET_NAME) ?ok]"
  show ?thesis
  proof (cases "\<not> ?ok \<and> port < last_port r")
    case True
    then have "enable_tunnel_forward_loop E s r port t =
        enable_tunnel_forward_loop E s r (port + 1) ?t1"
      by (subst enable_tunnel_forward_loop.simps) (simp add: tunnel_defs Let_def)
    moreover obtain new where
      "snd (snd (enable_tunnel_forward_loop E s r (port + 1) ?t1)) = ?t1 @ new"
      using forward_loop_extends by blast
    ultimately show ?thesis by simp
  next
    case False
    then have "snd (snd (enable_tunnel_forward_loop E s r port t)) = ?t1"
      by (subst enable_tunnel_forward_loop.simps) (auto simp add: tunnel_defs Let_def)
    then show ?thesis by simp
  qed
qed

text \<open>
  C5.  If the reverse command of the bridge fails on the first candidate port,
  the reverse strategy returns false at once: that command is its only event,
  no listen, no removal and no further port.  With \<open>force_adb_forward\<close> false the
  cascade then runs the forward strategy, whose first command is the forward
  of \<open>port_range.first\<close>.  In every run of the reverse strategy, a removal of the
  reverse tunnel comes directly after a successful reverse command on a port
  and the failed listen on that same port.
\<close>

theorem reverse_command_failure_falls_back:
  "(\<not> adb_success E t (Adb_reverse (serial s) SOCKET_NAME (first_port r)) \<longrightarrow>
      enable_tunnel_reverse_any_port E s r t =
        (False, s, t @ [Adb (Adb_reverse (serial s) SOCKET_NAME (first_port r)) False]) \<and>
      enable_tunnel_any_port E s r False t =
        enable_tunnel_forward_any_port E s r
          (t @ [Adb (Adb_reverse (serial s) SOCKET_NAME (first_port r)) False]) \<and>
      (\<exists>ok rest. events_since t (snd (snd (enable_tunnel_any_port E s r False t))) =
          Adb (Adb_reverse (serial s) SOCKET_NAME (first_port r)) False #
          Adb (Adb_forward (serial s) (first_port r) SOCKET_NAME) ok # rest)) \<and>
   (\<forall>pre ser n rm post.
      events_since t (snd (snd (enable_tunnel_reverse_any_port E s r t))) =
        pre @ Adb (Adb_reverse_remove ser n) rm # post \<longrightarrow>
      (\<exists>pre' p. pre = pre' @ [Adb (Adb_reverse (serial s) SOCKET_NAME p) True,
                               Net_listen IPV4_LOCALHOST p 1 INVALID_SOCKET]))"
proof (intro conjI impI)
  let ?rev = "Adb (Adb_reverse (serial s) SOCKET_NAME (first_port r)) False"
  assume fails: "\<not> adb_success E t (Adb_reverse (serial s) SOCKET_NAME (first_port r))"
  then show rv: "enable_tunnel_reverse_any_port E s r t = (False, s, t @ [?rev])"
    unfolding enable_tunnel_reverse_any_port_def
    by (subst enable_tunnel_reverse_loop.simps) (simp add: tunnel_defs)
  then show fw: "enable_tunnel_any_port E s r False t =
      enable_tunnel_forward_any_port E s r (t @ [?rev])"
    by (simp add: enable_tunnel_any_port_def)
  obtain ok rest where
    "snd (snd (enable_tunnel_forward_any_port E s r (t @ [?rev]))) =
       (t @ [?rev]) @ Adb (Adb_forward (serial s) (first_port r) SOCKET_NAME) ok # rest"
    using forward_loop_first [of E "s\<lparr>tunnel_forward := True\<rparr>" r "first_port r" "t @ [?rev]"]
    unfolding enable_tunnel_forward_any_port_def by auto
  with fw show "\<exists>ok rest. events_since t (snd (snd (enable_tunnel_any_port E s r False t))) =
      ?rev # Adb (Adb_forward (serial s) (first_port r) SOCKET_NAME) ok # rest"
    by simp
next
  obtain new where new: "snd (snd (enable_tunnel_reverse_any_port E s r t)) = t @ new"
    "remove_follows_failed_listen (serial s) new"
    using reverse_loop_remove [of E s r "first_port r" t]
    unfolding enable_tunnel_reverse_any_port_def by blast
  from new(2) show "\<forall>pre ser n rm post.
      events_since t (snd (snd (enable_tunnel_reverse_any_port E s r t))) =
        pre @ Adb (Adb_reverse_remove ser n) rm # post \<longrightarrow>
      (\<exists>pre' p. pre = pre' @ [Adb (Adb_reverse (serial s) SOCKET_NAME p) True,
                               Net_listen IPV4_LOCALHOST p 1 INVALID_SOCKET])"
    unfolding new(1) events_since_append remove_follows_failed_listen_def .
qed

lemmas eval_tunnel = enable_tunnel_any_port_def enable_tunnel_reverse_any_port_def
      enable_tunnel_forward_any_port_def
      enable_tunnel_reverse_loop.simps enable_tunnel_forward_loop.simps tunnel_defs Let_def

lemma busy_sweep:
  "snd (snd (enable_tunnel_reverse_any_port env_port_busy server_initialized
       \<lparr>first_port = 27183, last_port = 27199\<rparr> [])) =
     [Adb (Adb_reverse None SOCKET_NAME 27183) True,
      Net_listen IPV4_LOCALHOST 27183 1 INVALID_SOCKET,
      Adb (Adb_reverse_remove None SOCKET_NAME) True,
      Adb (Adb_reverse None SOCKET_NAME 27184) True,
      Net_listen IPV4_LOCALHOST 27184 1 (Socket 4)]"
  by (simp add: eval_tunnel env_port_busy_def env_serving_def server_initialized_def)

theorem reverse_command_failure_falls_back_witness:
  "\<not> adb_success env_no_reverse [] (Adb_reverse None SOCKET_NAME 27183) \<and>
   enable_tunnel_any_port env_no_reverse server_initialized
       \<lparr>first_port = 27183, last_port = 27199\<rparr> False [] =
     enable_tunnel_forward_any_port env_no_reverse server_initialized
       \<lparr>first_port = 27183, last_port = 27199\<rparr>
       [Adb (Adb_reverse None SOCKET_NAME 27183) False] \<and>
   (\<exists>pre' p. [Adb (Adb_reverse None SOCKET_NAME 27183) True,
               Net_listen IPV4_LOCALHOST 27183 1 INVALID_SOCKET] =
       pre' @ [Adb (Adb_reverse None SOCKET_NAME p) True,
               Net_listen IPV4_LOCALHOST p 1 INVALID_SOCKET])"
proof -
  have fails: "\<not> adb_success env_no_reverse [] (Adb_reverse None SOCKET_NAME 27183)"
    by (simp add: env_no_reverse_def)
  have ser: "serial server_initialized = None"
    by (simp add: server_initialized_def)
  note a = reverse_command_failure_falls_back [of env_no_reverse "[]" server_initialized
      "\<lparr>first_port = 27183, last_port = 27199\<rparr>", THEN conjunct1, rule_format, unfolded ser]
  note b = reverse_command_failure_falls_back [of env_port_busy "[]" server_initialized
      "\<lparr>first_port = 27183, last_port = 27199\<rparr>", THEN conjunct2, rule_format,
      of "[Adb (Adb_reverse None SOCKET_NAME 27183) True,
           Net_listen IPV4_LOCALHOST 27183 1 INVALID_SOCKET]" None SOCKET_NAME True
         "[Adb (Adb_reverse None SOCKET_NAME 27184) True,
           Net_listen IPV4_LOCALHOST 27184 1 (Socket 4)]", unfolded ser]
  from fails a have "enable_tunnel_any_port env_no_reverse server_initialized
       \<lparr>first_port = 27183, last_port = 27199\<rparr> False [] =
     enable_tunnel_forward_any_port env_no_reverse server_initialized
       \<lparr>first_port = 27183, last_port = 27199\<rparr>
       [Adb (Adb_reverse None SOCKET_NAME 27183) False]"
    by simp
  moreover have "\<exists>pre' p. [Adb (Adb_reverse None SOCKET_NAME 27183) True,
               Net_listen IPV4_LOCALHOST 27183 1 INVALID_SOCKET] =
       pre' @ [Adb (Adb_reverse None SOCKET_NAME p) True,
               Net_listen IPV4_LOCALHOST p 1 INVALID_SOCKET]"
    by (rule b) (simp add: busy_sweep events_since_def)
  ultimately show ?thesis using fails by blast
qed

subsection \<open>The tunnel state after a failed cascade\<close>

lemma forward_loop_state:
  "enable_tunnel_forward_loop E s r port t = (ok, s', t') \<Longrightarrow>
   (if ok then \<exists>p. s' = s\<lparr>local_port := p\<rparr> else s' = s)"
proof (induction E s r port t rule: enable_tunnel_forward_loop.induct)
  case (1 E s r port t)
  let ?ok = "adb_success E t (Adb_forward (serial s) port SOCKET_NAME)"
  let ?t1 = "t @ [Adb (Adb_forward (serial s) port SOCKET_NAME) ?ok]"
  show ?case
  proof (cases ?ok)
    case True
    then have "enable_tunnel_forward_loop E s r port t = (True, s\<lparr>local_port := port\<rparr>, ?t1)"
      by (subst enable_tunnel_forward_loop.simps) (simp add: tunnel_defs Let_def)
    with "1.prems" show ?thesis by auto
  next
    case nok: False
    show ?thesis
    proof (cases "port < last_port r")
      case False
      with nok have "enable_tunnel_forward_loop E s r port t = (False, s, ?t1)"
        by (subst enable_tunnel_forward_loop.simps) (simp add: tunnel_defs Let_def)
      with "1.prems" show ?thesis by auto
    next
      case lt: True
      with nok have "enable_tunnel_forward_loop E s r port t =
          enable_tunnel_forward_loop E s r (port + 1) ?t1"
        by (subst enable_tunnel_forward_loop.simps) (simp add: tunnel_defs Let_def)
      with "1.prems" have "enable_tunnel_forward_loop E s r (port + 1) ?t1 = (ok, s', t')"
        by simp
      then show ?thesis
        using "1.IH" [OF prod.collapse _ lt] nok by (simp add: tunnel_defs Let_def cong: if_cong)
    qed
  qed
qed

lemma reverse_loop_state:
  "enable_tunnel_reverse_loop E s r port t = (ok, s', t') \<Longrightarrow>
   (if ok then \<exists>sock p. sock \<noteq> INVALID_SOCKET \<and> s' = s\<lparr>server_socket := sock, local_port := p\<rparr>
    else s' = s \<or> s' = s\<lparr>server_socket := INVALID_SOCKET\<rparr>)"
proof (induction E s r port t arbitrary: rule: enable_tunnel_reverse_loop.induct)
  case (1 E s r port t)
  let ?rev = "Adb (Adb_reverse (serial s) SOCKET_NAME port)"
  let ?t1 = "t @ [?rev True]"
  let ?sock = "listened E ?t1 IPV4_LOCALHOST port"
  let ?lis = "Net_listen IPV4_LOCALHOST port 1 ?sock"
  let ?t2 = "?t1 @ [?lis]"
  let ?rm = "Adb (Adb_reverse_remove (serial s) SOCKET_NAME) (adb_success E ?t2 (Adb_reverse_remove (serial s) SOCKET_NAME))"
  let ?t3 = "?t2 @ [?rm]"
  show ?case
  proof (cases "adb_success E t (Adb_reverse (serial s) SOCKET_NAME port)")
    case False
    then have "enable_tunnel_reverse_loop E s r port t = (False, s, t @ [?rev False])"
      by (subst enable_tunnel_reverse_loop.simps) (simp add: tunnel_defs)
    with "1.prems" show ?thesis by auto
  next
    case ok: True
    show ?thesis
    proof (cases "?sock = INVALID_SOCKET")
      case False
      with ok have "enable_tunnel_reverse_loop E s r port t =
          (True, s\<lparr>server_socket := ?sock, local_port := port\<rparr>, ?t2)"
        by (subst enable_tunnel_reverse_loop.simps) (simp add: tunnel_defs Let_def)
      with "1.prems" False show ?thesis by auto
    next
      case inv: True
      show ?thesis
      proof (cases "port < last_port r")
        case False
        with ok inv have "enable_tunnel_reverse_loop E s r port t =
            (False, s\<lparr>server_socket := INVALID_SOCKET\<rparr>, ?t3)"
          by (subst enable_tunnel_reverse_loop.simps) (simp add: tunnel_defs Let_def)
        with "1.prems" show ?thesis by auto
      next
        case lt: True
        have "enable_tunnel_reverse_loop E s r port t =
            enable_tunnel_reverse_loop E (s\<lparr>server_socket := ?sock\<rparr>) r (port + 1) ?t3"
          using ok inv lt
          by (subst enable_tunnel_reverse_loop.simps) (simp add: tunnel_defs Let_def)
        with "1.prems" have "enable_tunnel_reverse_loop E (s\<lparr>server_socket := ?sock\<rparr>) r (port + 1) ?t3
            = (ok, s', t')" by simp
        then have "if ok then \<exists>sock p. sock \<noteq> INVALID_SOCKET \<and>
              s' = s\<lparr>server_socket := ?sock\<rparr>\<lparr>server_socket := sock, local_port := p\<rparr>
            else s' = s\<lparr>server_socket := ?sock\<rparr> \<or>
              s' = s\<lparr>server_socket := ?sock\<rparr>\<lparr>server_socket := INVALID_SOCKET\<rparr>"
          using "1.IH" [OF prod.collapse _ prod.collapse _ prod.collapse lt] ok inv
          by (simp add: tunnel_defs Let_def cong: if_cong)
        with inv show ?thesis by (auto split: if_splits)
      qed
    qed
  qed
qed

text \<open>
  C6, as the spec states it, fails: when no port can be forwarded, the cascade
  returns false and leaves \<open>tunnel_forward\<close> true although it was false before.
\<close>

theorem establish_failure_keeps_forward_flag:
  "fst (enable_tunnel_any_port env_refusing server_initialized
      \<lparr>first_port = 27183, last_port = 27183\<rparr> False []) = False \<and>
   tunnel_forward (fst (snd (enable_tunnel_any_port env_refusing server_initialized
      \<lparr>first_port = 27183, last_port = 27183\<rparr> False []))) \<noteq> tunnel_forward server_initialized"
  by (simp add: eval_tunnel env_refusing_def server_initialized_def)

text \<open>
  C6, amended.  The cascade sets \<open>tunnel_forward\<close> as soon as the forward strategy
  is entered, before any port is tried: after the call the flag is true exactly
  when it was true before, or the forward strategy was forced, or the reverse
  strategy failed.  \<open>local_port\<close> is written only on success.  So whenever the
  cascade returns false, \<open>local_port\<close> has its value from before the call and
  \<open>tunnel_forward\<close> is true.
\<close>

theorem establish_tunnel_state:
  assumes "enable_tunnel_any_port E s r force t = (ok, s', t')"
  shows "(\<not> ok \<longrightarrow> local_port s' = local_port s \<and> tunnel_forward s') \<and>
         tunnel_forward s' =
           (tunnel_forward s \<or> force \<or> \<not> fst (enable_tunnel_reverse_any_port E s r t))"
proof (cases "\<not> force \<and> fst (enable_tunnel_reverse_any_port E s r t)")
  case True
  obtain s1 t1 where rv: "enable_tunnel_reverse_any_port E s r t = (True, s1, t1)"
    using True by (cases "enable_tunnel_reverse_any_port E s r t") auto
  with True assms have "ok" "s' = s1"
    by (simp_all add: enable_tunnel_any_port_def)
  moreover from rv have "tunnel_forward s1 = tunnel_forward s"
    unfolding enable_tunnel_reverse_any_port_def by (auto dest!: reverse_loop_state)
  ultimately show ?thesis using True by simp
next
  case False
  obtain b s1 t1 where rv: "enable_tunnel_reverse_any_port E s r t = (b, s1, t1)"
    by (cases "enable_tunnel_reverse_any_port E s r t") auto
  define s0 t0 where "s0 = (if force then s else s1)" and "t0 = (if force then t else t1)"
  from False rv assms have fw: "enable_tunnel_forward_any_port E s0 r t0 = (ok, s', t')"
    by (auto simp add: enable_tunnel_any_port_def s0_def t0_def)
  have s0: "local_port s0 = local_port s"
    using rv False unfolding enable_tunnel_reverse_any_port_def s0_def
    by (auto dest!: reverse_loop_state)
  from fw have "if ok then \<exists>p. s' = s0\<lparr>tunnel_forward := True\<rparr>\<lparr>local_port := p\<rparr>
      else s' = s0\<lparr>tunnel_forward := True\<rparr>"
    unfolding enable_tunnel_forward_any_port_def by (rule forward_loop_state)
  then have "tunnel_forward s'" "\<not> ok \<longrightarrow> local_port s' = local_port s0"
    by (auto split: if_splits)
  with s0 False show ?thesis by auto
qed


theorem establish_tunnel_state_witness:
  "enable_tunnel_any_port env_refusing server_initialized
      \<lparr>first_port = 27183, last_port = 27183\<rparr> False [] =
     (False, server_initialized\<lparr>tunnel_forward := True\<rparr>,
      [Adb (Adb_reverse None SOCKET_NAME 27183) False,
       Adb (Adb_forward None 27183 SOCKET_NAME) False]) \<and>
   local_port (server_initialized\<lparr>tunnel_forward := True\<rparr>) = local_port server_initialized \<and>
   tunnel_forward (server_initialized\<lparr>tunnel_forward := True\<rparr>)"
proof -
  have run: "enable_tunnel_any_port env_refusing server_initialized
      \<lparr>first_port = 27183, last_port = 27183\<rparr> False [] =
     (False, server_initialized\<lparr>tunnel_forward := True\<rparr>,
      [Adb (Adb_reverse None SOCKET_NAME 27183) False,
       Adb (Adb_forward None 27183 SOCKET_NAME) False])"
    by (simp add: eval_tunnel env_refusing_def server_initialized_def)
  from establish_tunnel_state [OF run] run show ?thesis by simp
qed

subsection \<open>The readiness probe\<close>

text \<open>
  C8.  connect_and_read_byte connects and reads one byte.  If the connect
  fails it returns INVALID_SOCKET, and the connect is its only event.  If the
  read of one byte does not return 1 (an error, end of stream), it closes the
  socket and returns INVALID_SOCKET.  Otherwise it returns the socket, its
  events are the connect and one recv of length 1 that returned 1, and that one
  byte is taken off the socket: the function returns the socket alone, the
  byte is in no result.
\<close>

theorem connect_and_read_byte_cases:
  "(connected E t a port = INVALID_SOCKET \<longrightarrow>
      connect_and_read_byte E a port t =
        (INVALID_SOCKET, t @ [Net_connect a port INVALID_SOCKET])) \<and>
   (connected E t a port \<noteq> INVALID_SOCKET \<and>
    received E (t @ [Net_connect a port (connected E t a port)]) (connected E t a port) 1 \<noteq> 1 \<longrightarrow>
      (\<exists>n c. n \<noteq> 1 \<and> connect_and_read_byte E a port t =
        (INVALID_SOCKET,
         t @ [Net_connect a port (connected E t a port),
              Net_recv (connected E t a port) 1 n,
              Net_close (connected E t a port) c]))) \<and>
   (connected E t a port \<noteq> INVALID_SOCKET \<and>
    received E (t @ [Net_connect a port (connected E t a port)]) (connected E t a port) 1 = 1 \<longrightarrow>
      connect_and_read_byte E a port t =
        (connected E t a port,
         t @ [Net_connect a port (connected E t a port),
              Net_recv (connected E t a port) 1 1]) \<and>
      received_bytes (connected E t a port)
        (events_since t (snd (connect_and_read_byte E a port t))) = 1)"
  by (simp add: connect_and_read_byte_def Let_def received_bytes_def)

theorem connect_and_read_byte_cases_witness:
  "connect_and_read_byte env_refusing IPV4_LOCALHOST 27183 [] =
     (INVALID_SOCKET, [Net_connect IPV4_LOCALHOST 27183 INVALID_SOCKET]) \<and>
   (\<exists>n c. n \<noteq> 1 \<and> connect_and_read_byte env_silent_agent IPV4_LOCALHOST 27183 [] =
     (INVALID_SOCKET, [Net_connect IPV4_LOCALHOST 27183 (Socket 0),
        Net_recv (Socket 0) 1 n, Net_close (Socket 0) c])) \<and>
   connect_and_read_byte env_serving IPV4_LOCALHOST 27183 [] =
     (Socket 0, [Net_connect IPV4_LOCALHOST 27183 (Socket 0), Net_recv (Socket 0) 1 1]) \<and>
   received_bytes (Socket 0)
     (events_since [] (snd (connect_and_read_byte env_serving IPV4_LOCALHOST 27183 []))) = 1"
proof -
  have a: "connected env_refusing [] IPV4_LOCALHOST 27183 = INVALID_SOCKET"
    by (simp add: env_refusing_def)
  have b: "connected env_silent_agent [] IPV4_LOCALHOST 27183 = Socket 0"
    "received env_silent_agent [Net_connect IPV4_LOCALHOST 27183 (Socket 0)] (Socket 0) 1 = 0"
    by (simp_all add: env_silent_agent_def env_serving_def)
  have c: "connected env_serving [] IPV4_LOCALHOST 27183 = Socket 0"
    "received env_serving [Net_connect IPV4_LOCALHOST 27183 (Socket 0)] (Socket 0) 1 = 1"
    by (simp_all add: env_serving_def)
  from connect_and_read_byte_cases [of env_refusing "[]" IPV4_LOCALHOST 27183] a
  have 1: "connect_and_read_byte env_refusing IPV4_LOCALHOST 27183 [] =
     (INVALID_SOCKET, [Net_connect IPV4_LOCALHOST 27183 INVALID_SOCKET])"
    by simp
  from connect_and_read_byte_cases [of env_silent_agent "[]" IPV4_LOCALHOST 27183] b
  have 2: "\<exists>n c. n \<noteq> 1 \<and> connect_and_read_byte env_silent_agent IPV4_LOCALHOST 27183 [] =
     (INVALID_SOCKET, [Net_connect IPV4_LOCALHOST 27183 (Socket 0),
        Net_recv (Socket 0) 1 n, Net_close (Socket 0) c])"
    by simp
  from connect_and_read_byte_cases [of env_serving "[]" IPV4_LOCALHOST 27183] c
  have 3: "connect_and_read_byte env_serving IPV4_LOCALHOST 27183 [] =
     (Socket 0, [Net_connect IPV4_LOCALHOST 27183 (Socket 0), Net_recv (Socket 0) 1 1]) \<and>
   received_bytes (Socket 0)
     (events_since [] (snd (connect_and_read_byte env_serving IPV4_LOCALHOST 27183 []))) = 1"
    by (simp add: received_bytes_def events_since_def)
  from 1 2 3 show ?thesis by blast
qed

subsection \<open>The retry loop\<close>

lemma probe_events:
  "\<exists>pe. snd (connect_and_read_byte E a port t) =
      t @ Net_connect a port (connected E t a port) # pe \<and> probes pe = 0 \<and> delays pe = 0"
  by (simp add: connect_and_read_byte_def Let_def probes_def delays_def is_probe_def is_delay_def)

lemma probes_append [simp]: "probes (xs @ ys) = probes xs + probes ys"
  by (simp add: probes_def)

lemma delays_append [simp]: "delays (xs @ ys) = delays xs + delays ys"
  by (simp add: delays_def)

lemma probes_Cons [simp]: "probes (Net_connect a p s # xs) = Suc (probes xs)"
  "probes (SDL_Delay d # xs) = probes xs" "probes [] = 0"
  by (simp_all add: probes_def is_probe_def)

lemma delays_Cons [simp]: "delays (Net_connect a p s # xs) = delays xs"
  "delays (SDL_Delay d # xs) = Suc (delays xs)" "delays [] = 0"
  by (simp_all add: delays_def is_delay_def)

text \<open>
  When every attempt of a call with \<open>attempts \<ge> 1\<close> fails, the events of the
  call are \<open>attempts\<close> failed attempts, each followed by its sleep.
\<close>

lemma attempt_then_sleepI:
  "probes pe = 0 \<Longrightarrow> delays pe = 0 \<Longrightarrow>
   attempt_then_sleep a port delay (Net_connect a port sock # pe @ [SDL_Delay delay])"
  by (simp add: attempt_then_sleep_def)

lemma attempt_then_sleep_counts:
  "attempt_then_sleep a port delay b \<Longrightarrow> probes b = 1 \<and> delays b = 1"
  by (auto simp add: attempt_then_sleep_def split: list.splits event.splits)

lemma attempts_counts:
  "list_all (attempt_then_sleep a port delay) bs \<Longrightarrow>
   probes (concat bs) = length bs \<and> delays (concat bs) = length bs"
  by (induction bs) (auto dest: attempt_then_sleep_counts)

lemma connect_to_server_all_fail:
  "\<forall>t'. fst (connect_and_read_byte E a port t') = INVALID_SOCKET \<Longrightarrow> attempts \<noteq> 0 \<Longrightarrow>
    \<exists>bs. connect_to_server E a port attempts delay t = (INVALID_SOCKET, t @ concat bs) \<and>
      length bs = unat attempts \<and> list_all (attempt_then_sleep a port delay) bs"
proof (induction E a port attempts delay t rule: connect_to_server.induct)
  case (1 E a port attempts delay t)
  note fail = "1.prems"(1) and nz = "1.prems"(2)
  obtain pe where pe: "snd (connect_and_read_byte E a port t) =
      t @ Net_connect a port (connected E t a port) # pe" "probes pe = 0" "delays pe = 0"
    using probe_events by blast
  let ?b = "Net_connect a port (connected E t a port) # pe @ [SDL_Delay delay]"
  let ?t2 = "t @ ?b"
  have b: "attempt_then_sleep a port delay ?b"
    using pe(2,3) by (rule attempt_then_sleepI)
  have cr: "connect_and_read_byte E a port t = (INVALID_SOCKET, t @ Net_connect a port (connected E t a port) # pe)"
    using fail [rule_format, of t] pe(1) by (cases "connect_and_read_byte E a port t") simp
  have un: "unat attempts \<noteq> 0" using nz by (simp add: unat_eq_zero)
  show ?case
  proof (cases "attempts - 1 > 0")
    case False
    then have one: "attempts = 1" by (simp add: word_greater_zero_iff)
    have "connect_to_server E a port attempts delay t = (INVALID_SOCKET, ?t2)"
      using cr nz False by (subst connect_to_server.simps) (simp add: Let_def)
    then show ?thesis using b one
      by (intro exI [of _ "[?b]"]) simp
  next
    case True
    have eq: "connect_to_server E a port attempts delay t =
        connect_to_server E a port (attempts - 1) delay ?t2"
      using cr nz True by (subst connect_to_server.simps) (simp add: Let_def)
    have nz': "attempts - 1 \<noteq> 0" using True by (simp add: word_greater_zero_iff)
    have "\<exists>bs. connect_to_server E a port (attempts - 1) delay ?t2 =
          (INVALID_SOCKET, ?t2 @ concat bs) \<and>
        length bs = unat (attempts - 1) \<and> list_all (attempt_then_sleep a port delay) bs"
      using "1.IH" [OF cr [symmetric] _ refl True fail nz'] nz by simp
    then obtain bs where bs:
      "connect_to_server E a port (attempts - 1) delay ?t2 = (INVALID_SOCKET, ?t2 @ concat bs)"
      "length bs = unat (attempts - 1)" "list_all (attempt_then_sleep a port delay) bs"
      by blast
    have dec: "unat (attempts - 1) = unat attempts - 1"
      using nz by (rule unat_minus_one)
    show ?thesis using eq bs b dec un
      by (intro exI [of _ "?b # bs"]) simp
  qed
qed

lemma connect_to_server_unfold:
  "connect_to_server E a port attempts delay t =
     (if fst (connect_and_read_byte E a port t) \<noteq> INVALID_SOCKET
      then connect_and_read_byte E a port t
      else if attempts - 1 \<noteq> 0
        then connect_to_server E a port (attempts - 1) delay
               (if attempts \<noteq> 0 then snd (connect_and_read_byte E a port t) @ [SDL_Delay delay]
                else snd (connect_and_read_byte E a port t))
        else (INVALID_SOCKET,
               if attempts \<noteq> 0 then snd (connect_and_read_byte E a port t) @ [SDL_Delay delay]
               else snd (connect_and_read_byte E a port t)))"
  by (subst connect_to_server.simps)
     (simp add: Let_def word_greater_zero_iff split: prod.split)

lemma connect_to_server_extends:
  "\<exists>new. snd (connect_to_server E a port attempts delay t) = t @ new"
proof (induction E a port attempts delay t rule: connect_to_server.induct)
  case (1 E a port attempts delay t)
  obtain pe where pe: "snd (connect_and_read_byte E a port t) =
      t @ Net_connect a port (connected E t a port) # pe"
    using probe_events by blast
  let ?sock = "fst (connect_and_read_byte E a port t)"
  let ?t1 = "snd (connect_and_read_byte E a port t)"
  let ?t2 = "if attempts \<noteq> 0 then ?t1 @ [SDL_Delay delay] else ?t1"
  have t2: "\<exists>new. ?t2 = t @ new" using pe by simp
  show ?case
  proof (cases "?sock = INVALID_SOCKET \<and> attempts - 1 \<noteq> 0")
    case True
    then have "connect_to_server E a port attempts delay t =
        connect_to_server E a port (attempts - 1) delay ?t2"
      by (subst connect_to_server_unfold) simp
    moreover have "\<exists>new. snd (connect_to_server E a port (attempts - 1) delay ?t2) = ?t2 @ new"
      using "1.IH" [OF prod.collapse _ refl] True by (simp add: word_greater_zero_iff)
    moreover obtain new2 where "?t2 = t @ new2" using t2 by blast
    ultimately have "\<exists>new. snd (connect_to_server E a port attempts delay t) = t @ (new2 @ new)"
      by auto
    then show ?thesis by blast
  next
    case False
    then have "connect_to_server E a port attempts delay t =
        (if ?sock \<noteq> INVALID_SOCKET then connect_and_read_byte E a port t
         else (INVALID_SOCKET, ?t2))"
      by (subst connect_to_server_unfold) simp
    then have "snd (connect_to_server E a port attempts delay t) = ?t1 \<or>
        snd (connect_to_server E a port attempts delay t) = ?t2"
      by simp
    then show ?thesis using t2 pe by auto
  qed
qed

lemma connect_to_server_first:
  "\<exists>rest. snd (connect_to_server E a port attempts delay t) =
     t @ Net_connect a port (connected E t a port) # rest"
proof -
  obtain pe where pe: "snd (connect_and_read_byte E a port t) =
      t @ Net_connect a port (connected E t a port) # pe"
    using probe_events by blast
  let ?sock = "fst (connect_and_read_byte E a port t)"
  let ?t1 = "snd (connect_and_read_byte E a port t)"
  let ?t2 = "if attempts \<noteq> 0 then ?t1 @ [SDL_Delay delay] else ?t1"
  have t2: "\<exists>rest. ?t2 = t @ Net_connect a port (connected E t a port) # rest" using pe by simp
  show ?thesis
  proof (cases "?sock = INVALID_SOCKET \<and> attempts - 1 \<noteq> 0")
    case True
    then have "connect_to_server E a port attempts delay t =
        connect_to_server E a port (attempts - 1) delay ?t2"
      by (subst connect_to_server_unfold) simp
    moreover obtain new where
      "snd (connect_to_server E a port (attempts - 1) delay ?t2) = ?t2 @ new"
      using connect_to_server_extends by blast
    moreover obtain rest2 where "?t2 = t @ Net_connect a port (connected E t a port) # rest2"
      using t2 by blast
    ultimately have "snd (connect_to_server E a port attempts delay t) =
        t @ Net_connect a port (connected E t a port) # (rest2 @ new)"
      by simp
    then show ?thesis by blast
  next
    case False
    then have "connect_to_server E a port attempts delay t =
        (if ?sock \<noteq> INVALID_SOCKET then connect_and_read_byte E a port t
         else (INVALID_SOCKET, ?t2))"
      by (subst connect_to_server_unfold) simp
    then have "snd (connect_to_server E a port attempts delay t) = ?t1 \<or>
        snd (connect_to_server E a port attempts delay t) = ?t2"
      by simp
    then show ?thesis using t2 pe by auto
  qed
qed

lemma zero_attempts_all_fail:
  assumes fail: "\<forall>t'. fst (connect_and_read_byte E a port t') = INVALID_SOCKET"
  shows "\<exists>bs.
      connect_to_server E a port 0 delay t =
        (INVALID_SOCKET, snd (connect_and_read_byte E a port t) @ concat bs) \<and>
      length bs = 2 ^ 32 - 1 \<and> list_all (attempt_then_sleep a port delay) bs \<and>
      probes (events_since t (snd (connect_to_server E a port 0 delay t))) = 2 ^ 32 \<and>
      delays (events_since t (snd (connect_to_server E a port 0 delay t))) = 2 ^ 32 - 1"
proof -
  obtain pe where pe: "snd (connect_and_read_byte E a port t) =
      t @ Net_connect a port (connected E t a port) # pe" "probes pe = 0" "delays pe = 0"
    using probe_events by blast
  let ?t1 = "snd (connect_and_read_byte E a port t)"
  have eq: "connect_to_server E a port 0 delay t = connect_to_server E a port (- 1) delay ?t1"
    using fail [rule_format, of t] by (subst connect_to_server_unfold) simp
  have n: "unat (- 1 :: u32) = 2 ^ 32 - 1"
    by (simp add: unsigned_minus_1_eq_mask mask_eq_exp_minus_1)
  obtain bs where bs:
    "connect_to_server E a port (- 1) delay ?t1 = (INVALID_SOCKET, ?t1 @ concat bs)"
    "length bs = 2 ^ 32 - 1" "list_all (attempt_then_sleep a port delay) bs"
    using connect_to_server_all_fail [OF fail, of "- 1" delay ?t1] n by auto
  have counts: "probes (concat bs) = 2 ^ 32 - 1" "delays (concat bs) = 2 ^ 32 - 1"
    using attempts_counts [OF bs(3)] bs(2) by simp_all
  have "events_since t (snd (connect_to_server E a port 0 delay t)) =
      Net_connect a port (connected E t a port) # pe @ concat bs"
    using eq bs(1) pe(1) by simp
  then have "probes (events_since t (snd (connect_to_server E a port 0 delay t))) = 2 ^ 32"
      "delays (events_since t (snd (connect_to_server E a port 0 delay t))) = 2 ^ 32 - 1"
    using counts pe(2,3) by simp_all
  with eq bs show ?thesis by auto
qed

lemma refusing_probe:
  "connect_and_read_byte env_refusing a port t = (INVALID_SOCKET, t @ [Net_connect a port INVALID_SOCKET])"
  by (simp add: connect_and_read_byte_def env_refusing_def)

text \<open>
  C9 does not hold of the code: with one attempt that fails, or two that fail,
  connect_to_server sleeps after every failed attempt, the last one included.
  The test \<open>if (attempts)\<close> before the sleep reads the counter before it is
  decremented, so it is true in every iteration of a call with
  \<open>attempts \<ge> 1\<close> (lemma \<open>connect_to_server_all_fail\<close>: each failed attempt
  is followed by its sleep).
\<close>

theorem connect_to_server_sleeps_after_last_failure:
  "connect_to_server env_refusing IPV4_LOCALHOST 27183 1 100 [] =
     (INVALID_SOCKET, [Net_connect IPV4_LOCALHOST 27183 INVALID_SOCKET, SDL_Delay 100]) \<and>
   connect_to_server env_refusing IPV4_LOCALHOST 27183 2 100 [] =
     (INVALID_SOCKET, [Net_connect IPV4_LOCALHOST 27183 INVALID_SOCKET, SDL_Delay 100,
                       Net_connect IPV4_LOCALHOST 27183 INVALID_SOCKET, SDL_Delay 100])"
  by (simp add: connect_to_server.simps refusing_probe)

text \<open>
  C10, as stated, fails: called with \<open>attempts = 0\<close> where every attempt
  fails, the function makes \<open>2^32\<close> attempts but sleeps only \<open>2^32 - 1\<close> times;
  the first attempt is followed by the second attempt, not by a sleep.
\<close>

theorem zero_attempts_first_probe_without_delay:
  "fst (connect_to_server env_refusing IPV4_LOCALHOST 27183 0 100 []) = INVALID_SOCKET \<and>
   probes (snd (connect_to_server env_refusing IPV4_LOCALHOST 27183 0 100 [])) = 4294967296 \<and>
   delays (snd (connect_to_server env_refusing IPV4_LOCALHOST 27183 0 100 [])) = 4294967295 \<and>
   take 2 (snd (connect_to_server env_refusing IPV4_LOCALHOST 27183 0 100 [])) =
     [Net_connect IPV4_LOCALHOST 27183 INVALID_SOCKET,
      Net_connect IPV4_LOCALHOST 27183 INVALID_SOCKET]"
proof -
  have fail: "\<forall>t'. fst (connect_and_read_byte env_refusing IPV4_LOCALHOST 27183 t') = INVALID_SOCKET"
    by (simp add: refusing_probe)
  have c: "connected env_refusing t IPV4_LOCALHOST 27183 = INVALID_SOCKET" for t
    by (simp add: env_refusing_def)
  obtain rest where "snd (connect_to_server env_refusing IPV4_LOCALHOST 27183 (- 1) 100
        [Net_connect IPV4_LOCALHOST 27183 INVALID_SOCKET]) =
      [Net_connect IPV4_LOCALHOST 27183 INVALID_SOCKET] @
      Net_connect IPV4_LOCALHOST 27183 INVALID_SOCKET # rest"
    using connect_to_server_first [of env_refusing IPV4_LOCALHOST 27183 "- 1" 100
        "[Net_connect IPV4_LOCALHOST 27183 INVALID_SOCKET]"]
    by (auto simp add: c)
  moreover have "connect_to_server env_refusing IPV4_LOCALHOST 27183 0 100 [] =
      connect_to_server env_refusing IPV4_LOCALHOST 27183 (- 1) 100
        [Net_connect IPV4_LOCALHOST 27183 INVALID_SOCKET]"
    by (subst connect_to_server_unfold) (simp add: refusing_probe)
  ultimately have two: "take 2 (snd (connect_to_server env_refusing IPV4_LOCALHOST 27183 0 100 [])) =
     [Net_connect IPV4_LOCALHOST 27183 INVALID_SOCKET,
      Net_connect IPV4_LOCALHOST 27183 INVALID_SOCKET]"
    by simp
  from zero_attempts_all_fail [OF fail, of 100 "[]"] two show ?thesis
    by (auto simp add: events_since_def)
qed

text \<open>
  C10, amended.  Called with \<open>attempts = 0\<close>, connect_to_server does not make
  zero attempts: the body runs before the test and the decrement wraps from 0
  to \<open>2^32 - 1\<close>.  If every attempt fails it returns INVALID_SOCKET after
  \<open>2^32\<close> attempts and \<open>2^32 - 1\<close> sleeps: the events are those of the first
  attempt, with no sleep after it, and then \<open>2^32 - 1\<close> times a failed attempt
  followed by its sleep.
\<close>

theorem connect_to_server_zero_attempts:
  assumes "\<forall>t'. fst (connect_and_read_byte E a port t') = INVALID_SOCKET"
  shows "\<exists>bs.
      connect_to_server E a port 0 delay t =
        (INVALID_SOCKET, snd (connect_and_read_byte E a port t) @ concat bs) \<and>
      length bs = 2 ^ 32 - 1 \<and> list_all (attempt_then_sleep a port delay) bs \<and>
      probes (events_since t (snd (connect_to_server E a port 0 delay t))) = 2 ^ 32 \<and>
      delays (events_since t (snd (connect_to_server E a port 0 delay t))) = 2 ^ 32 - 1"
  using assms by (rule zero_attempts_all_fail)

theorem connect_to_server_zero_attempts_witness:
  "\<exists>bs.
      connect_to_server env_refusing IPV4_LOCALHOST 27183 0 100 [] =
        (INVALID_SOCKET, [Net_connect IPV4_LOCALHOST 27183 INVALID_SOCKET] @ concat bs) \<and>
      length bs = 2 ^ 32 - 1 \<and> list_all (attempt_then_sleep IPV4_LOCALHOST 27183 100) bs \<and>
      probes (events_since [] (snd (connect_to_server env_refusing IPV4_LOCALHOST 27183 0 100 [])))
        = 2 ^ 32 \<and>
      delays (events_since [] (snd (connect_to_server env_refusing IPV4_LOCALHOST 27183 0 100 [])))
        = 2 ^ 32 - 1"
proof -
  have fail: "\<forall>t'. fst (connect_and_read_byte env_refusing IPV4_LOCALHOST 27183 t') = INVALID_SOCKET"
    by (simp add: refusing_probe)
  from connect_to_server_zero_attempts [OF fail, of 100 "[]"] show ?thesis
    by (simp add: refusing_probe)
qed

subsection \<open>Starting and stopping in direct mode\<close>

lemma direct_start_curl_failure:
  assumes "direct s" "\<not> tunnel_forward s" "\<not> server_socket_closed s"
    "server_socket s = INVALID_SOCKET"
    "ser = None \<or> strdup_ok E t"
    "s1 = (case ser of None \<Rightarrow> s\<lparr>port_range := params_port_range params\<rparr>
           | Some v \<Rightarrow> s\<lparr>port_range := params_port_range params, serial := Some v\<rparr>)"
    "t0 = (case ser of None \<Rightarrow> t | Some v \<Rightarrow> t @ [SDL_strdup True])"
    "\<not> fst (execute_server_curl E s1 params t0)"
  shows "server_start E s ser params t =
     Inl (Assert_socket_not_invalid, snd (execute_server_curl E s1 params t0))"
  using assms
  by (cases ser)
     (auto simp add: server_start_def Let_def server_start_error2_def close_socket_def
        bind_result_def split: prod.splits)

lemma curl_down: "curl_get env_curl_down u t = (False, t @ [Curl_get u (- 1) []])"
  by (simp add: curl_get_def env_curl_down_def curl_success_def)

text \<open>
  C3 does not hold of the code.  In direct mode \<open>tunnel_forward\<close> is false and
  the listening socket is INVALID_SOCKET.  When execute_server_curl fails,
  server_start jumps to \<open>error2\<close>, whose first branch is taken because
  \<open>tunnel_forward\<close> is false: it sets the flag and calls close_socket on the
  socket that was never opened, and the assertion of close_socket fails.  The
  run ends there: the events are the strdup and the failed GET, without the GET
  of stop_server_curl and without the free of the serial.
\<close>

theorem direct_start_failure_closes_invalid_socket:
  "server_start env_curl_down server_direct (Some ''0123456789ABCDEF'') default_params [] =
     Inl (Assert_socket_not_invalid,
          [SDL_strdup True,
           Curl_get (take 1023 (''http://10.0.0.2:8080'' @ ''/startScrcpy/'' @
                       join_slash (server_arguments env_curl_down default_params ''true'')))
             (- 1) []])"
proof -
  let ?s1 = "server_direct\<lparr>port_range := params_port_range default_params,
      serial := Some ''0123456789ABCDEF''\<rparr>"
  have u: "url_string ?s1 = ''http://10.0.0.2:8080''"
    by (simp add: url_string_def server_direct_def)
  have "server_start env_curl_down server_direct (Some ''0123456789ABCDEF'') default_params [] =
      Inl (Assert_socket_not_invalid,
           snd (execute_server_curl env_curl_down ?s1 default_params [SDL_strdup True]))"
  proof (rule direct_start_curl_failure)
    show "\<not> fst (execute_server_curl env_curl_down ?s1 default_params [SDL_strdup True])"
      by (simp add: execute_server_curl_def curl_down)
    show "Some ''0123456789ABCDEF'' = None \<or> strdup_ok env_curl_down []"
      by (simp add: env_curl_down_def env_serving_def)
  qed (simp_all add: server_direct_def server_initialized_def)
  then show ?thesis
    by (simp add: execute_server_curl_def curl_down u)
qed

text \<open>
  server_stop closes only sockets that are valid, so it can fail in one way
  only: the assertion on the process.
\<close>

lemma server_stop_sockets_returns:
  "\<exists>s' t'. server_stop_sockets E s t = Inr (s', t') \<and> process s' = process s"
  by (simp add: server_stop_sockets_def bind_result_def close_socket_def Let_def)

lemma server_stop_aborts_iff:
  "(\<exists>a t'. server_stop E s t = Inl (a, t')) \<longleftrightarrow> process s = PROCESS_NONE"
proof -
  obtain s' t' where st: "server_stop_sockets E s t = Inr (s', t')" "process s' = process s"
    using server_stop_sockets_returns by blast
  then show ?thesis
    by (auto simp add: server_stop_def bind_result_def Let_def)
qed

text \<open>
  After a successful start through the bridge (reverse or forward mode) the
  process is set, and server_stop returns.
\<close>

lemma bridged_start_success:
  assumes "\<not> direct s"
    "server_start E s ser params t = Inr ((True, s'), t')"
  shows "process s' \<noteq> PROCESS_NONE"
proof -
  define s0 where "s0 = s\<lparr>port_range := params_port_range params\<rparr>"
  define dup where "dup = (case ser of None \<Rightarrow> True | Some v \<Rightarrow> strdup_ok E t)"
  define t0 where "t0 = (case ser of None \<Rightarrow> t | Some v \<Rightarrow> t @ [SDL_strdup dup])"
  define s1 where "s1 = (case ser of None \<Rightarrow> s0
      | Some v \<Rightarrow> s0\<lparr>serial := (if dup then Some v else None)\<rparr>)"
  have nd: "\<not> direct s1"
    using assms(1) by (simp add: s1_def s0_def split: option.split)
  obtain pushed t1 where ps: "push_server E ser t0 = (pushed, t1)"
    by (cases "push_server E ser t0") auto
  obtain ok s2 t2 where et: "enable_tunnel_any_port E s1 (params_port_range params)
      (force_adb_forward params) t1 = (ok, s2, t2)"
    by (cases "enable_tunnel_any_port E s1 (params_port_range params)
      (force_adb_forward params) t1") auto
  obtain p t3 where ex: "execute_server_adb E s2 params t2 = (p, t3)"
    by (cases "execute_server_adb E s2 params t2") auto
  have unfolded: "server_start E s ser params t =
      (if \<not> dup then Inr ((False, s1), t0)
       else if \<not> pushed then server_start_error1 s1 t1
       else if \<not> ok then server_start_error1 s2 t2
       else if p = PROCESS_NONE then server_start_error2 E (s2\<lparr>process := p\<rparr>) t3
       else server_start_thread E (s2\<lparr>process := p\<rparr>) t3)"
    using nd ps et ex
    by (simp add: server_start_def Let_def s0_def [symmetric] dup_def [symmetric]
        t0_def [symmetric] s1_def [symmetric])
  have e1: "server_start_error1 x u \<noteq> Inr ((True, s'), t')" for x u
    by (simp add: server_start_error1_def)
  have e2: "server_start_error2 E x u \<noteq> Inr ((True, s'), t')" for x u
    by (auto simp add: server_start_error2_def server_start_error1_def bind_result_def Let_def
        close_socket_def split: if_splits sum.splits)
  from assms(2) unfolded e1 e2 have
    th: "server_start_thread E (s2\<lparr>process := p\<rparr>) t3 = Inr ((True, s'), t')"
    and p: "p \<noteq> PROCESS_NONE"
    by (auto split: if_splits)
  from th e2 have "s' = s2\<lparr>process := p, wait_server_thread := True, tunnel_enabled := True\<rparr>"
    by (auto simp add: server_start_thread_def Let_def split: if_splits)
  with p show ?thesis by simp
qed

lemma bridged_start_then_stop:
  assumes "\<not> direct s" "server_start E s ser params t = Inr ((True, s'), t')"
  shows "\<exists>s'' t''. server_stop E s' t' = Inr (s'', t'')"
proof -
  have "process s' \<noteq> PROCESS_NONE"
    using assms by (rule bridged_start_success)
  then have "\<not> (\<exists>a u. server_stop E s' t' = Inl (a, u))"
    by (simp add: server_stop_aborts_iff)
  then show ?thesis
    by (cases "server_stop E s' t'") auto
qed

lemma direct_start_success:
  assumes "direct s" "process s = PROCESS_NONE"
    "server_start E s ser params t = Inr ((True, s'), t')"
  shows "process s' = PROCESS_NONE \<and> direct s'"
  using assms
  by (cases ser)
     (auto simp add: server_start_def Let_def server_start_thread_def server_start_error2_def
        server_start_error1_def bind_result_def
        split: prod.splits if_splits sum.splits)

lemma direct_start_then_stop:
  assumes "direct s" "process s = PROCESS_NONE"
    "server_start E s ser params t = Inr ((True, s'), t')"
  shows "\<exists>t''. server_stop E s' t' = Inl (Assert_process_not_none, t'')"
proof -
  have "process s' = PROCESS_NONE"
    using direct_start_success [OF assms] by simp
  moreover obtain s2 t2 where "server_stop_sockets E s' t' = Inr (s2, t2)" "process s2 = process s'"
    using server_stop_sockets_returns by blast
  ultimately show ?thesis
    by (simp add: server_stop_def bind_result_def)
qed

lemma curl_up: "curl_get env_serving u t = (True, t @ [Curl_get u 7 ''success''])"
  by (simp add: curl_get_def env_serving_def curl_success_def)

text \<open>
  C2 does not hold of the code.  A successful start in direct mode leaves
  \<open>process\<close> at PROCESS_NONE, since only execute_server_adb assigns it, and
  server_stop asserts \<open>process != PROCESS_NONE\<close> (lemmas
  \<open>direct_start_then_stop\<close> and \<open>server_stop_aborts_iff\<close>).
\<close>

theorem direct_start_then_stop_aborts:
  "server_start env_serving server_direct None default_params [] =
     Inr ((True, server_direct\<lparr>port_range := params_port_range default_params,
                               wait_server_thread := True, tunnel_enabled := True\<rparr>),
          [Curl_get (take 1023 (''http://10.0.0.2:8080'' @ ''/startScrcpy/'' @
                       join_slash (server_arguments env_serving default_params ''true'')))
             7 ''success'',
           SDL_CreateThread True]) \<and>
   server_stop env_serving
     (server_direct\<lparr>port_range := params_port_range default_params,
                     wait_server_thread := True, tunnel_enabled := True\<rparr>)
     [Curl_get (take 1023 (''http://10.0.0.2:8080'' @ ''/startScrcpy/'' @
                  join_slash (server_arguments env_serving default_params ''true'')))
        7 ''success'',
      SDL_CreateThread True] =
     Inl (Assert_process_not_none,
          [Curl_get (take 1023 (''http://10.0.0.2:8080'' @ ''/startScrcpy/'' @
                       join_slash (server_arguments env_serving default_params ''true'')))
             7 ''success'',
           SDL_CreateThread True])"
proof -
  let ?s1 = "server_direct\<lparr>port_range := params_port_range default_params\<rparr>"
  have u: "url_string ?s1 = ''http://10.0.0.2:8080''"
    by (simp add: url_string_def server_direct_def)
  have d: "direct ?s1" "thread_created env_serving t" for t
    by (simp_all add: server_direct_def env_serving_def)
  have start: "server_start env_serving server_direct None default_params [] =
     Inr ((True, server_direct\<lparr>port_range := params_port_range default_params,
                               wait_server_thread := True, tunnel_enabled := True\<rparr>),
          [Curl_get (take 1023 (''http://10.0.0.2:8080'' @ ''/startScrcpy/'' @
                       join_slash (server_arguments env_serving default_params ''true'')))
             7 ''success'',
           SDL_CreateThread True])"
    by (simp add: server_start_def Let_def execute_server_curl_def curl_up u d
        server_start_thread_def)
  have stop: "server_stop env_serving
     (server_direct\<lparr>port_range := params_port_range default_params,
                     wait_server_thread := True, tunnel_enabled := True\<rparr>) t =
     Inl (Assert_process_not_none, t)" for t
    by (simp add: server_stop_def server_stop_sockets_def bind_result_def
        server_direct_def server_initialized_def)
  from start stop show ?thesis by simp
qed


subsection \<open>The order of the two sockets\<close>

lemma probe_success:
  "connect_and_read_byte E a port t = (v, t1) \<Longrightarrow> v \<noteq> INVALID_SOCKET \<Longrightarrow>
   t1 = t @ [Net_connect a port v, Net_recv v 1 1]"
  by (auto simp add: connect_and_read_byte_def Let_def split: if_splits)

lemma connect_to_server_success:
  "connect_to_server E a port attempts delay t = (v, t') \<Longrightarrow> v \<noteq> INVALID_SOCKET \<Longrightarrow>
   \<exists>pre. t' = t @ pre @ [Net_connect a port v, Net_recv v 1 1]"
proof (induction E a port attempts delay t rule: connect_to_server.induct)
  case (1 E a port attempts delay t)
  let ?sock = "fst (connect_and_read_byte E a port t)"
  let ?t1 = "snd (connect_and_read_byte E a port t)"
  let ?t2 = "if attempts \<noteq> 0 then ?t1 @ [SDL_Delay delay] else ?t1"
  show ?case
  proof (cases "?sock \<noteq> INVALID_SOCKET")
    case True
    then have "connect_to_server E a port attempts delay t = connect_and_read_byte E a port t"
      by (subst connect_to_server_unfold) simp
    with "1.prems" have "t' = t @ [Net_connect a port v, Net_recv v 1 1]"
      by (auto dest: probe_success)
    then show ?thesis by simp
  next
    case inv: False
    show ?thesis
    proof (cases "attempts - 1 \<noteq> 0")
      case False
      with inv have "connect_to_server E a port attempts delay t = (INVALID_SOCKET, ?t2)"
        by (subst connect_to_server_unfold) simp
      with "1.prems" show ?thesis by simp
    next
      case True
      with inv have "connect_to_server E a port attempts delay t =
          connect_to_server E a port (attempts - 1) delay ?t2"
        by (subst connect_to_server_unfold) simp
      with "1.prems" have rec: "connect_to_server E a port (attempts - 1) delay ?t2 = (v, t')"
        by simp
      have "\<exists>pre. t' = ?t2 @ pre @ [Net_connect a port v, Net_recv v 1 1]"
        using "1.IH" [OF prod.collapse _ refl _ rec "1.prems"(2)] inv True
        by (simp add: word_greater_zero_iff)
      then obtain pre where pre: "t' = ?t2 @ pre @ [Net_connect a port v, Net_recv v 1 1]"
        by blast
      obtain pe where "?t1 = t @ Net_connect a port (connected E t a port) # pe"
        using probe_events by blast
      then obtain new2 where "?t2 = t @ new2"
        by (cases "attempts = 0") simp_all
      with pre have "t' = t @ (new2 @ pre) @ [Net_connect a port v, Net_recv v 1 1]"
        by simp
      then show ?thesis by blast
    qed
  qed
qed

text \<open>
  C7.  In every successful server_connect_to both sockets are valid and the
  video socket is obtained before the control socket.  In reverse mode the
  first event is the accept that returns the video socket and the second is the
  accept that returns the control socket.  In direct and in forward mode the
  first operation, connect_to_server, returns the video socket; its last two
  events are the connect that returned this socket and the read of the
  readiness byte (before them come only the events of failed attempts); the
  next event is the connect that returns the control socket, and no connect
  follows it.
\<close>

theorem video_socket_before_control_socket:
  assumes "server_connect_to E s t = Inr ((True, s'), t')"
  shows "video_socket s' \<noteq> INVALID_SOCKET \<and> control_socket s' \<noteq> INVALID_SOCKET \<and>
    (if direct s
     then (\<exists>pre.
        connect_to_server E (addr s) (first_port (port_range s)) 12 1000 t =
          (video_socket s',
           t @ pre @ [Net_connect (addr s) (first_port (port_range s)) (video_socket s'),
                      Net_recv (video_socket s') 1 1]) \<and>
        events_since t t' =
          pre @ [Net_connect (addr s) (first_port (port_range s)) (video_socket s'),
                 Net_recv (video_socket s') 1 1,
                 Net_connect (addr s) (first_port (port_range s)) (control_socket s')])
     else if tunnel_forward s
     then (\<exists>pre removed.
        connect_to_server E IPV4_LOCALHOST (local_port s) 100 100 t =
          (video_socket s',
           t @ pre @ [Net_connect IPV4_LOCALHOST (local_port s) (video_socket s'),
                      Net_recv (video_socket s') 1 1]) \<and>
        events_since t t' =
          pre @ [Net_connect IPV4_LOCALHOST (local_port s) (video_socket s'),
                 Net_recv (video_socket s') 1 1,
                 Net_connect IPV4_LOCALHOST (local_port s) (control_socket s'),
                 Adb (Adb_forward_remove (serial s) (local_port s)) removed])
     else (\<exists>post.
        events_since t t' =
          Net_accept (server_socket s) (video_socket s') #
          Net_accept (server_socket s) (control_socket s') # post \<and>
        (post = [] \<or>
         (\<exists>ok. post = [Net_shutdown (server_socket s), Net_close (server_socket s) ok]))))"
proof (cases "direct s")
  case True
  let ?a = "addr s" and ?p = "first_port (port_range s)"
  obtain v t1 where cs: "connect_to_server E ?a ?p 12 1000 t = (v, t1)"
    by (cases "connect_to_server E ?a ?p 12 1000 t") auto
  from assms True cs have v: "v \<noteq> INVALID_SOCKET"
    by (auto simp add: server_connect_to_def Let_def split: if_splits)
  from connect_to_server_success [OF cs v] obtain pre where
    pre: "t1 = t @ pre @ [Net_connect ?a ?p v, Net_recv v 1 1]" by blast
  from assms True cs v pre show ?thesis
    by (auto simp add: server_connect_to_def net_connect_def Let_def split: if_splits)
next
  case nd: False
  show ?thesis
  proof (cases "tunnel_forward s")
    case True
    let ?p = "local_port s"
    obtain v t1 where cs: "connect_to_server E IPV4_LOCALHOST ?p 100 100 t = (v, t1)"
      by (cases "connect_to_server E IPV4_LOCALHOST ?p 100 100 t") auto
    from assms nd True cs have v: "v \<noteq> INVALID_SOCKET"
      by (auto simp add: server_connect_to_def Let_def split: if_splits)
    from connect_to_server_success [OF cs v] obtain pre where
      pre: "t1 = t @ pre @ [Net_connect IPV4_LOCALHOST ?p v, Net_recv v 1 1]" by blast
    from assms nd True cs v pre show ?thesis
      by (auto simp add: server_connect_to_def net_connect_def Let_def disable_tunnel_def
          disable_tunnel_forward_def adb_check_def split: if_splits)
  next
    case False
    with assms nd show ?thesis
      by (auto simp add: server_connect_to_def net_accept_def Let_def close_socket_def
          bind_result_def split: if_splits)
  qed
qed

theorem video_socket_before_control_socket_witness:
  "server_connect_to env_serving server_listening [] =
     Inr ((True, server_listening\<lparr>video_socket := Socket 0, control_socket := Socket 1,
                                   server_socket_closed := True\<rparr>),
          [Net_accept (Socket 1) (Socket 0), Net_accept (Socket 1) (Socket 1),
           Net_shutdown (Socket 1), Net_close (Socket 1) True]) \<and>
   (\<exists>post. events_since []
        [Net_accept (Socket 1) (Socket 0), Net_accept (Socket 1) (Socket 1),
         Net_shutdown (Socket 1), Net_close (Socket 1) True] =
      Net_accept (Socket 1) (Socket 0) # Net_accept (Socket 1) (Socket 1) # post)"
proof -
  have run: "server_connect_to env_serving server_listening [] =
     Inr ((True, server_listening\<lparr>video_socket := Socket 0, control_socket := Socket 1,
                                   server_socket_closed := True\<rparr>),
          [Net_accept (Socket 1) (Socket 0), Net_accept (Socket 1) (Socket 1),
           Net_shutdown (Socket 1), Net_close (Socket 1) True])"
    by (simp add: server_connect_to_def net_accept_def Let_def close_socket_def bind_result_def
        server_listening_def server_initialized_def env_serving_def)
  have m: "\<not> direct server_listening" "\<not> tunnel_forward server_listening"
    "server_socket server_listening = Socket 1"
    by (simp_all add: server_listening_def server_initialized_def)
  from video_socket_before_control_socket [OF run] m run show ?thesis
    by auto
qed

subsection \<open>The listening socket is closed once\<close>

text \<open>
  When the cascade returns true for a server whose listening socket is not yet
  open and whose \<open>tunnel_forward\<close> is false, as server_init leaves them, the
  listening socket is open exactly in reverse mode, and the flag is as before:
  this is the state \<open>listener_opened\<close> from which the runs below start.
\<close>

lemma establish_opens_listener:
  assumes "server_socket s = INVALID_SOCKET" "\<not> tunnel_forward s"
    and run: "enable_tunnel_any_port E s r force t = (True, s', t')"
  shows "(server_socket s' \<noteq> INVALID_SOCKET \<longleftrightarrow> \<not> tunnel_forward s') \<and>
         server_socket_closed s' = server_socket_closed s \<and> direct s' = direct s \<and>
         process s' = process s"
proof (cases "\<not> force \<and> fst (enable_tunnel_reverse_any_port E s r t)")
  case True
  obtain s1 t1 where rv: "enable_tunnel_reverse_any_port E s r t = (True, s1, t1)"
    using True by (cases "enable_tunnel_reverse_any_port E s r t") auto
  with True run have "s' = s1"
    by (simp add: enable_tunnel_any_port_def)
  moreover from rv obtain sock p where "sock \<noteq> INVALID_SOCKET"
      "s1 = s\<lparr>server_socket := sock, local_port := p\<rparr>"
    unfolding enable_tunnel_reverse_any_port_def by (auto dest!: reverse_loop_state)
  ultimately show ?thesis using assms(2) by simp
next
  case False
  obtain b s1 t1 where rv: "enable_tunnel_reverse_any_port E s r t = (b, s1, t1)"
    by (cases "enable_tunnel_reverse_any_port E s r t") auto
  define s0 t0 where "s0 = (if force then s else s1)" and "t0 = (if force then t else t1)"
  from False rv run have fw: "enable_tunnel_forward_any_port E s0 r t0 = (True, s', t')"
    by (auto simp add: enable_tunnel_any_port_def s0_def t0_def)
  have "s0 = s \<or> s0 = s\<lparr>server_socket := INVALID_SOCKET\<rparr>"
    using rv False unfolding enable_tunnel_reverse_any_port_def s0_def
    by (auto dest!: reverse_loop_state)
  then have s0: "server_socket s0 = INVALID_SOCKET"
    "server_socket_closed s0 = server_socket_closed s" "direct s0 = direct s"
    "process s0 = process s"
    using assms(1) by auto
  from fw obtain p where "s' = s0\<lparr>tunnel_forward := True\<rparr>\<lparr>local_port := p\<rparr>"
    unfolding enable_tunnel_forward_any_port_def by (auto dest!: forward_loop_state)
  with s0 show ?thesis by simp
qed

lemma close_authority_initial: "listener_opened c \<Longrightarrow> close_authority c"
  by (simp add: listener_opened_def close_authority_def closing_def)

lemma close_authority_step: "step c c' \<Longrightarrow> close_authority c \<Longrightarrow> close_authority c'"
  by (induction rule: step.induct)
     (auto simp add: close_authority_def closing_def test_and_set_def split: if_splits)

lemma close_authority_steps: "steps c c' \<Longrightarrow> close_authority c \<Longrightarrow> close_authority c'"
  by (induction rule: steps.induct) (auto intro: close_authority_step)


text \<open>
  C1.  In every run of the two threads from a state in which server_start has
  opened the listening socket, close_socket is called on that socket at most
  once, whichever thread gets there first (the wait thread when the agent has
  died, server_connect_to after the two accepts, server_stop, or the unwinding
  of a failed start); every call is made by the thread that found the flag
  clear when it set it, so the flag is set once a call was made; no assertion
  fails; and when server_stop has returned, or server_start has returned
  false, the socket has been closed exactly once.
\<close>

theorem listening_socket_closed_once:
  assumes "listener_opened c0" and "steps c0 c"
  shows "length (listen_closes c) \<le> 1 \<and>
         lifecycle c \<noteq> Assertion_failed \<and>
         (if listen_closes c = [] then True else server_socket_closed (shared c)) \<and>
         (if lifecycle c = Stop_returned \<or> lifecycle c = Start_failed
          then length (listen_closes c) = 1 else True)"
proof -
  have inv: "close_authority c"
    using assms by (auto intro: close_authority_steps close_authority_initial)
  then have "length (listen_closes c) + closing c =
      (if server_socket_closed (shared c) then 1 else 0)"
    by (simp add: close_authority_def)
  moreover have "closing c = 0" if "lifecycle c = Stop_returned \<or> lifecycle c = Start_failed"
    using that inv by (auto simp add: close_authority_def closing_def split: if_splits)
  moreover have "server_socket_closed (shared c)"
    if "lifecycle c = Stop_returned \<or> lifecycle c = Start_failed"
    using that inv by (auto simp add: close_authority_def split: if_splits)
  moreover have "lifecycle c \<noteq> Assertion_failed"
    using inv by (simp add: close_authority_def)
  ultimately show ?thesis
    by (auto split: if_splits)
qed

lemma run_to_running: "steps session_opened session_running"
proof -
  let ?c1 = "session_opened\<lparr>lifecycle := At_create_thread,
      shared := (shared session_opened)\<lparr>process := Process 4242\<rparr>\<rparr>"
  let ?c2 = "?c1\<lparr>lifecycle := Start_succeeded, wait_thread := At_cmd_wait,
      shared := (shared ?c1)\<lparr>wait_server_thread := True, tunnel_enabled := True\<rparr>\<rparr>"
  have a: "step session_opened ?c1"
    by (rule step.execute_ok) (simp add: session_opened_def)
  have b: "step ?c1 ?c2"
    by (rule step.thread_created) simp
  have e: "?c2 = session_running"
    by (simp add: session_running_def)
  have "steps session_opened ?c2"
    by (rule steps_more [OF steps_more [OF steps_none a] b])
  then show ?thesis
    by (simp only: e)
qed

lemma run_agent_died: "steps session_running session_agent_died"
proof -
  let ?c1 = "session_running\<lparr>wait_thread := At_signal\<rparr>"
  let ?c2 = "?c1\<lparr>wait_thread := At_wait_flag,
      shared := (shared ?c1)\<lparr>process_terminated := True\<rparr>\<rparr>"
  let ?c3 = "?c2\<lparr>wait_thread := (if server_socket_closed (shared ?c2) then Thread_returned
                                   else At_wait_close),
      shared := test_and_set (shared ?c2)\<rparr>"
  let ?c4 = "?c3\<lparr>wait_thread := Thread_returned,
      listen_closes := listen_closes ?c3 @ [Closed_by_wait_thread]\<rparr>"
  have a: "step session_running ?c1"
    by (rule step.wait_process_exit) (simp add: session_running_def)
  have b: "step ?c1 ?c2"
    by (rule step.wait_signal) simp
  have c: "step ?c2 ?c3"
    by (rule step.wait_flag) (simp_all add: session_running_def session_opened_def)
  have "step ?c3 (if server_socket (shared ?c3) = INVALID_SOCKET
                  then ?c3\<lparr>lifecycle := Assertion_failed\<rparr> else ?c4)"
    by (rule step.wait_close)
       (simp add: session_running_def session_opened_def server_initialized_def)
  then have d: "step ?c3 ?c4"
    by (simp add: session_running_def session_opened_def test_and_set_def)
  have e: "?c4 = session_agent_died"
    by (simp add: session_agent_died_def session_running_def session_opened_def
        test_and_set_def)
  have "steps session_running ?c4"
    by (rule steps_more [OF steps_more [OF steps_more [OF steps_more [OF steps_none a] b] c] d])
  then show ?thesis
    by (simp only: e)
qed

lemma run_stop:
  "steps session_agent_died (session_agent_died\<lparr>lifecycle := Stop_returned\<rparr>)"
proof -
  let ?c1 = "session_agent_died\<lparr>lifecycle := At_stop_flag\<rparr>"
  let ?c2 = "?c1\<lparr>lifecycle := (if server_socket_closed (shared ?c1) then At_stop_sockets
                                  else At_stop_close),
      shared := test_and_set (shared ?c1)\<rparr>"
  let ?c3 = "?c2\<lparr>lifecycle := (if process (shared ?c2) = PROCESS_NONE then Assertion_failed
                                  else At_wait_thread)\<rparr>"
  let ?c4 = "?c3\<lparr>lifecycle := Stop_returned\<rparr>"
  have p: "server_socket_closed (shared session_agent_died)"
    "server_socket (shared session_agent_died) \<noteq> INVALID_SOCKET"
    "process (shared session_agent_died) \<noteq> PROCESS_NONE"
    "lifecycle session_agent_died = Start_succeeded"
    "wait_thread session_agent_died = Thread_returned"
    by (simp_all add: session_agent_died_def session_running_def session_opened_def)
  have a: "step session_agent_died ?c1"
    by (rule step.call_stop) (simp add: p)
  have b: "step ?c1 ?c2"
    by (rule step.stop_flag) (simp_all add: p)
  have c: "step ?c2 ?c3"
    by (rule step.stop_sockets) (simp add: p)
  have d: "step ?c3 ?c4"
    by (rule step.stop_wait_thread) (simp_all add: p test_and_set_def)
  have e: "?c4 = session_agent_died\<lparr>lifecycle := Stop_returned\<rparr>"
    using p(1) by (simp add: test_and_set_def)
  have "steps session_agent_died ?c4"
    by (rule steps_more [OF steps_more [OF steps_more [OF steps_more [OF steps_none a] b] c] d])
  then show ?thesis
    by (simp only: e)
qed

lemma steps_trans: "steps c' c'' \<Longrightarrow> steps c c' \<Longrightarrow> steps c c''"
  by (induction rule: steps.induct) (auto intro: steps.intros)

theorem listening_socket_closed_once_witness:
  "listener_opened session_opened \<and>
   steps session_opened (session_agent_died\<lparr>lifecycle := Stop_returned\<rparr>) \<and>
   listen_closes (session_agent_died\<lparr>lifecycle := Stop_returned\<rparr>) = [Closed_by_wait_thread] \<and>
   length (listen_closes (session_agent_died\<lparr>lifecycle := Stop_returned\<rparr>)) = 1"
proof -
  have o: "listener_opened session_opened"
    by (simp add: listener_opened_def session_opened_def server_initialized_def)
  have r: "steps session_opened (session_agent_died\<lparr>lifecycle := Stop_returned\<rparr>)"
    by (rule steps_trans [OF run_stop steps_trans [OF run_agent_died run_to_running]])
  from listening_socket_closed_once [OF o r] o r show ?thesis
    by (simp add: session_agent_died_def)
qed

end
